theory Spec2Isabelle
  imports Main
begin

section \<open>Values, effects and the external world\<close>

text \<open>
  A value that a JavaScript operation throws (or a promise rejects with). The program only
  ever reads the \<open>message\<close> property of such a value, so an \<open>Error\<close> object is
  represented by its message. \<open>Undefined\<close> is the value of a \<open>let\<close> variable that
  was never assigned.
\<close>

datatype thrown = Undefined | Error string

text \<open>
  Reading \<open>error.message\<close> when \<open>error\<close> is \<open>undefined\<close> raises a TypeError, with
  the message \<^verbatim>\<open>Cannot read properties of undefined (reading 'message')\<close>.
\<close>

definition TypeError_message_of_undefined :: thrown where
  "TypeError_message_of_undefined =
     Error (''Cannot read properties of undefined (reading '' @ [CHR 0x27] @ ''message'' @
            [CHR 0x27] @ '')'')"

text \<open>
  The observable effects of the program besides its calls to the ledger: every line written
  with \<open>console.log\<close> / \<open>console.error\<close>, and every timer wait
  (\<open>setTimeout(resolve, delay)\<close>, recorded with the delay it was given).
  \<^item> \<open>AttemptFailed attempt maxAttempts error\<close>: \<^verbatim>\<open>Attempt 1/3 failed: message\<close>;
    \<open>WaitingBeforeRetry delay\<close>: \<^verbatim>\<open>Waiting 1000ms before retry...\<close>;
    \<open>Sleep delay\<close>: the timer wait that follows it.
  \<^item> \<open>AddressIsInvalid\<close>: \<^verbatim>\<open>Address is invalid\<close>;
    \<open>InvalidAddressSkipping address\<close>: \<^verbatim>\<open>Invalid address: ..., skipping...\<close>.
  \<^item> \<open>FoundStakeAccounts n\<close>: \<^verbatim>\<open>Found n stake accounts for address\<close>;
    \<open>FoundAssociatedStakeAccounts n\<close>: \<^verbatim>\<open>Found n associated stake accounts for address\<close>;
    \<open>NoStakeAccountsFoundWaiting\<close> (only in \<open>index.js\<close>):
    \<^verbatim>\<open>No stake accounts found, waiting 1 second before retrying\<close>.
  \<^item> \<open>ProcessingAddress address\<close>: \<^verbatim>\<open>Processing address ...\<close>;
    \<open>AddressIsStakeAccount\<close>, \<open>AddressIsMainAuthority\<close>, \<open>AddressIsNormalAccount\<close>:
    \<^verbatim>\<open>Address is a stake account\<close>, \<^verbatim>\<open>Address is a main authority account\<close>,
    \<^verbatim>\<open>Address is a normal account\<close>; \<open>InvalidAddressBranch\<close>: \<^verbatim>\<open>invalid address\<close>.
  \<^item> \<open>TotalForStakeAccount n\<close>, \<open>TotalForMainAuthority n\<close>,
    \<open>TotalForAssociatedStakeAccount n\<close>, \<open>TotalForNormalAccount n\<close>: the lines
    \<^verbatim>\<open>Total transactions for ...: n\<close>;
    \<open>ProcessingAssociatedStakeAccount s\<close>: \<^verbatim>\<open>Processing associated stake account: s\<close>.
  \<^item> \<open>AccumulatingTotal n\<close>: \<^verbatim>\<open>Accumulating total transactions: n\<close>;
    \<open>Separator\<close>: the line of \<^verbatim>\<open>=\<close> signs;
    \<open>ErrorProcessingAddress address error\<close>: \<^verbatim>\<open>Error processing address ...:\<close> with
    the thrown value.
\<close>

datatype event =
    AttemptFailed int int thrown
  | WaitingBeforeRetry int
  | Sleep int
  | AddressIsInvalid
  | InvalidAddressSkipping string
  | FoundStakeAccounts nat
  | FoundAssociatedStakeAccounts nat
  | NoStakeAccountsFoundWaiting
  | ProcessingAddress string
  | AddressIsStakeAccount
  | TotalForStakeAccount nat
  | AddressIsMainAuthority
  | TotalForMainAuthority nat
  | ProcessingAssociatedStakeAccount string
  | TotalForAssociatedStakeAccount nat
  | AddressIsNormalAccount
  | TotalForNormalAccount nat
  | InvalidAddressBranch
  | AccumulatingTotal nat
  | Separator
  | ErrorProcessingAddress string thrown

text \<open>
  The world an asynchronous operation runs in: the state of everything external (the ledger
  behind the RPC connection, the file system), and the trace of events emitted so far.
\<close>

record 'c world =
  ext :: 'c
  trace :: "event list"

definition emit :: "event \<Rightarrow> 'c world \<Rightarrow> 'c world" where
  "emit e w = w\<lparr>trace := trace w @ [e]\<rparr>"

text \<open>
  An awaited operation either never settles (\<open>None\<close>), or settles with a thrown value
  (\<open>Inl\<close>) or a result (\<open>Inr\<close>) and leaves a new world.
\<close>

type_synonym ('c, 'a) async = "'c world \<Rightarrow> ((thrown + 'a) \<times> 'c world) option"

text \<open>A call to an external collaborator: it always settles and only touches \<open>ext\<close>.\<close>

definition external_call :: "('c \<Rightarrow> (thrown + 'a) \<times> 'c) \<Rightarrow> ('c, 'a) async" where
  "external_call f w = (case f (ext w) of (r, c') \<Rightarrow> Some (r, w\<lparr>ext := c'\<rparr>))"

section \<open>withRetry\<close>

text \<open>
  The \<open>for\<close> loop of \<open>withRetry\<close>, with its variables \<open>attempt\<close>, \<open>delay\<close> and
  \<open>lastError\<close> as arguments. \<open>maxAttempts\<close>, \<open>attempt\<close> and \<open>delay\<close> are
  integers: the arithmetic of the loop (\<open>attempt++\<close>, \<open>delay *= 2\<close>) is that of the
  JavaScript numbers as long as the values are safe integers, of absolute value at most
  \<open>2 ^ 53\<close>.
  The \<open>catch\<close> clause assigns \<open>lastError\<close> and then builds its log line from
  \<open>error.message\<close>: for a caught \<open>undefined\<close> that raises a TypeError, which leaves
  the function from inside the clause, before anything is logged.
\<close>

function withRetry_loop ::
  "('c, 'a) async \<Rightarrow> int \<Rightarrow> int \<Rightarrow> int \<Rightarrow> thrown \<Rightarrow> ('c, 'a) async" where
  "withRetry_loop operation maxAttempts attempt delay lastError w =
     (if attempt \<le> maxAttempts then
        (case operation w of
           None \<Rightarrow> None
         | Some (Inr v, w1) \<Rightarrow> Some (Inr v, w1)
         | Some (Inl error, w1) \<Rightarrow>
             (case error of
                Undefined \<Rightarrow> Some (Inl TypeError_message_of_undefined, w1)
              | Error message \<Rightarrow>
                  (let w2 = emit (AttemptFailed attempt maxAttempts error) w1 in
                   if attempt < maxAttempts then
                     withRetry_loop operation maxAttempts (attempt + 1) (delay * 2) error
                       (emit (Sleep delay) (emit (WaitingBeforeRetry delay) w2))
                   else
                     withRetry_loop operation maxAttempts (attempt + 1) delay error w2)))
      else Some (Inl lastError, w))"
  by pat_completeness auto
termination
  by (relation "measure (\<lambda>(operation, maxAttempts, attempt, delay, lastError, w).
        nat (maxAttempts + 1 - attempt))") auto

declare withRetry_loop.simps [simp del]

definition withRetry :: "('c, 'a) async \<Rightarrow> int \<Rightarrow> int \<Rightarrow> ('c, 'a) async" where
  "withRetry operation maxAttempts delay w =
     withRetry_loop operation maxAttempts 1 delay Undefined w"

text \<open>The default arguments \<open>maxAttempts = 20, delay = 1000\<close>.\<close>

definition withRetry_default :: "('c, 'a) async \<Rightarrow> ('c, 'a) async" where
  "withRetry_default operation = withRetry operation 20 1000"

section \<open>Keys and the ledger RPC connection\<close>

text \<open>
  \<open>new PublicKey(address)\<close> of the key library either throws or yields a key object,
  which \<open>toBase58\<close> prints again. Which strings parse as keys is decided by the library:
  it is the parameter \<open>validKey\<close> of every function that constructs a key.
\<close>

datatype public_key = PublicKey string

fun toBase58 :: "public_key \<Rightarrow> string" where
  "toBase58 (PublicKey s) = s"

definition new_PublicKey :: "(string \<Rightarrow> bool) \<Rightarrow> string \<Rightarrow> thrown + public_key" where
  "new_PublicKey validKey address =
     (if validKey address then Inr (PublicKey address)
      else Inl (Error ''Invalid public key input''))"

definition StakeProgram_programId :: public_key where
  "StakeProgram_programId = PublicKey ''Stake11111111111111111111111111111111111111''"

text \<open>The \<open>data\<close> of a parsed account is raw bytes or a parsed object naming its program.\<close>

datatype account_data = RawData | ParsedAccountData string

record account_info =
  data :: account_data

text \<open>\<open>accountInfo?.value?.data?.program\<close>; \<open>None\<close> stands for \<open>undefined\<close>.\<close>

definition program_of :: "account_info option \<Rightarrow> string option" where
  "program_of accountInfo =
     (case accountInfo of
        None \<Rightarrow> None
      | Some v \<Rightarrow> (case data v of RawData \<Rightarrow> None | ParsedAccountData p \<Rightarrow> Some p))"

datatype filter = DataSize nat | Memcmp nat string

record keyed_account =
  pubkey :: public_key

record signature_info =
  signature :: string
  slot :: nat

record signatures_options =
  before :: "string option"
  limit :: nat
  commitment :: string

text \<open>
  The three methods of the connection that the program calls. Each settles with a thrown
  value or a response, and may change the state \<open>'c\<close> behind the connection.
\<close>

record 'c connection =
  rpc_getParsedAccountInfo :: "public_key \<Rightarrow> 'c \<Rightarrow> (thrown + account_info option) \<times> 'c"
  rpc_getProgramAccounts ::
    "public_key \<Rightarrow> filter list \<Rightarrow> 'c \<Rightarrow> (thrown + keyed_account list) \<times> 'c"
  rpc_getSignaturesForAddress ::
    "public_key \<Rightarrow> signatures_options \<Rightarrow> 'c \<Rightarrow> (thrown + signature_info list) \<times> 'c"

section \<open>Stake accounts of an authority\<close>

text \<open>
  \<open>getStakeAccountsForAddress\<close> has the default arguments \<open>maxAttempts = 3, delay = 1000\<close>;
  its two callers pass neither.
\<close>

definition isArrayNotEmpty :: "'a list \<Rightarrow> bool" where
  "isArrayNotEmpty array = (length array > 0)"

definition getStakeAccountsForAddress ::
  "'c connection \<Rightarrow> string \<Rightarrow> int \<Rightarrow> int \<Rightarrow> ('c, keyed_account list) async" where
  "getStakeAccountsForAddress connection address maxAttempts delay =
     withRetry
       (\<lambda>w. case external_call
                  (rpc_getProgramAccounts connection StakeProgram_programId
                     [DataSize 200, Memcmp 44 address]) w of
               None \<Rightarrow> None
             | Some (Inl e, w1) \<Rightarrow> Some (Inl e, w1)
             | Some (Inr stakeAccounts, w1) \<Rightarrow>
                 Some (Inr stakeAccounts, emit (FoundStakeAccounts (length stakeAccounts)) w1))
       maxAttempts delay"

definition hasStakeAccount :: "'c connection \<Rightarrow> string \<Rightarrow> ('c, bool) async" where
  "hasStakeAccount connection address w =
     (case getStakeAccountsForAddress connection address 3 1000 w of
        None \<Rightarrow> None
      | Some (Inl e, w1) \<Rightarrow> Some (Inl e, w1)
      | Some (Inr stakeAccounts, w1) \<Rightarrow> Some (Inr (isArrayNotEmpty stakeAccounts), w1))"

definition getAssociatedStakeAccounts :: "'c connection \<Rightarrow> string \<Rightarrow> ('c, string list) async" where
  "getAssociatedStakeAccounts connection address =
     withRetry_default
       (\<lambda>w. case getStakeAccountsForAddress connection address 3 1000 w of
               None \<Rightarrow> None
             | Some (Inl e, w1) \<Rightarrow> Some (Inl e, w1)
             | Some (Inr stakeAccounts, w1) \<Rightarrow>
                 (let associatedStakeAccounts = map (\<lambda>account. toBase58 (pubkey account)) stakeAccounts
                  in Some (Inr associatedStakeAccounts,
                       emit (FoundAssociatedStakeAccounts (length associatedStakeAccounts)) w1)))"

section \<open>The scan for stake accounts in index.js\<close>

text \<open>
  In \<open>index.js\<close> the function \<open>getStakeAccountsForAddress\<close> has a loop of its own, with
  \<open>maxAttempts = 1\<close> by default, instead of the call of \<open>withRetry\<close>: a thrown value of
  the scan leaves the function, and it is an empty answer after which the loop goes on.
  The loop, with \<open>attempt\<close> and \<open>stakeAccounts\<close> as arguments:
\<close>

function index_getStakeAccountsForAddress_loop ::
  "'c connection \<Rightarrow> string \<Rightarrow> int \<Rightarrow> int \<Rightarrow> int \<Rightarrow> keyed_account list
     \<Rightarrow> ('c, keyed_account list) async" where
  "index_getStakeAccountsForAddress_loop connection address maxAttempts delay attempt stakeAccounts w =
     (if attempt < maxAttempts then
        (case external_call
                (rpc_getProgramAccounts connection StakeProgram_programId
                   [DataSize 200, Memcmp 44 address]) w of
           None \<Rightarrow> None
         | Some (Inl e, w1) \<Rightarrow> Some (Inl e, w1)
         | Some (Inr fetched, w1) \<Rightarrow>
             (if isArrayNotEmpty fetched then
                Some (Inr fetched, emit (FoundStakeAccounts (length fetched)) w1)
              else if attempt < maxAttempts - 1 then
                index_getStakeAccountsForAddress_loop connection address maxAttempts delay
                  (attempt + 1) fetched (emit (Sleep delay) (emit NoStakeAccountsFoundWaiting w1))
              else
                index_getStakeAccountsForAddress_loop connection address maxAttempts delay
                  (attempt + 1) fetched w1))
      else Some (Inr stakeAccounts, w))"
  by pat_completeness auto
termination
  by (relation "measure (\<lambda>(connection, address, maxAttempts, delay, attempt, stakeAccounts, w).
        nat (maxAttempts - attempt))") auto

declare index_getStakeAccountsForAddress_loop.simps [simp del]

definition index_getStakeAccountsForAddress ::
  "'c connection \<Rightarrow> string \<Rightarrow> int \<Rightarrow> int \<Rightarrow> ('c, keyed_account list) async" where
  "index_getStakeAccountsForAddress connection address maxAttempts delay =
     index_getStakeAccountsForAddress_loop connection address maxAttempts delay 0 []"

section \<open>Signature history of one address\<close>

text \<open>
  The \<open>do \<dots> while\<close> loop of \<open>getSignaturesForAddress\<close>, with \<open>signatures\<close> and
  \<open>lastSignature\<close> as arguments. Nothing bounds the number of rounds: the loop runs for
  as long as the connection answers with exactly 1000 records.
\<close>

partial_function (option) getSignaturesForAddress_loop ::
  "'c connection \<Rightarrow> public_key \<Rightarrow> string \<Rightarrow> signature_info list \<Rightarrow> string option
     \<Rightarrow> 'c world \<Rightarrow> ((thrown + signature_info list) \<times> 'c world) option" where
  "getSignaturesForAddress_loop connection publicKey commitment_level signatures lastSignature w =
     (case external_call
             (rpc_getSignaturesForAddress connection publicKey
                \<lparr>before = lastSignature, limit = 1000, commitment = commitment_level\<rparr>) w of
        None \<Rightarrow> None
      | Some (Inl e, w1) \<Rightarrow> Some (Inl e, w1)
      | Some (Inr fetchedSignatures, w1) \<Rightarrow>
          (if length fetchedSignatures = 1000 then
             getSignaturesForAddress_loop connection publicKey commitment_level
               (signatures @ fetchedSignatures)
               (if length fetchedSignatures > 0
                then Some (signature (last fetchedSignatures)) else None)
               w1
           else Some (Inr (signatures @ fetchedSignatures), w1)))"

definition getSignaturesForAddress ::
  "'c connection \<Rightarrow> (string \<Rightarrow> bool) \<Rightarrow> string \<Rightarrow> string \<Rightarrow> ('c, signature_info list) async" where
  "getSignaturesForAddress connection validKey address commitment_level =
     withRetry_default
       (\<lambda>w. case new_PublicKey validKey address of
               Inl e \<Rightarrow> Some (Inl e, w)
             | Inr publicKey \<Rightarrow>
                 getSignaturesForAddress_loop connection publicKey commitment_level [] None w)"

section \<open>Loading the address list\<close>

text \<open>
  A \<open>char\<close> stands for a UTF-16 code unit below 256. Among those, \<open>String.prototype.trim\<close>
  removes the white space characters TAB, VT, FF, SP, NBSP and the line terminators LF, CR.
\<close>

definition isWhiteSpace :: "char \<Rightarrow> bool" where
  "isWhiteSpace c = (of_char c \<in> {9, 10, 11, 12, 13, 32, 160 :: nat})"

definition trim :: "string \<Rightarrow> string" where
  "trim s = rev (dropWhile isWhiteSpace (rev (dropWhile isWhiteSpace s)))"

text \<open>\<open>s.split(sep)\<close> for a separator of one character; it never yields the empty array.\<close>

fun split :: "char \<Rightarrow> string \<Rightarrow> string list" where
  "split sep [] = [[]]"
| "split sep (c # cs) =
     (if c = sep then [] # split sep cs
      else (case split sep cs of
              [] \<Rightarrow> [[c]]
            | piece # pieces \<Rightarrow> (c # piece) # pieces))"

definition isValidSolanaAddress :: "(string \<Rightarrow> bool) \<Rightarrow> string \<Rightarrow> 'c world \<Rightarrow> bool \<times> 'c world" where
  "isValidSolanaAddress validKey address w =
     (case new_PublicKey validKey address of
        Inr publicKey \<Rightarrow> (True, w)
      | Inl err \<Rightarrow> (False, emit AddressIsInvalid w))"

text \<open>
  A JavaScript \<open>Set\<close> of strings keeps its members in insertion order, each once:
  it is the list of members in that order.
\<close>

definition Set_add :: "string list \<Rightarrow> string \<Rightarrow> string list" where
  "Set_add addresses address =
     (if address \<in> set addresses then addresses else addresses @ [address])"

fun readAddresses_lines ::
  "(string \<Rightarrow> bool) \<Rightarrow> string list \<Rightarrow> string list \<Rightarrow> 'c world \<Rightarrow> string list \<times> 'c world" where
  "readAddresses_lines validKey [] addresses w = (addresses, w)"
| "readAddresses_lines validKey (line # rest) addresses w =
     (let address = trim line in
      case isValidSolanaAddress validKey address w of
        (True, w1) \<Rightarrow> readAddresses_lines validKey rest (Set_add addresses address) w1
      | (False, w1) \<Rightarrow>
          readAddresses_lines validKey rest addresses (emit (InvalidAddressSkipping address) w1))"

text \<open>
  \<open>readFile\<close> stands for \<open>fs.promises.readFile(filePath, 'utf8')\<close>; \<open>Array.from\<close> of
  the set is the list of its members.
\<close>

definition readAddressesFromFile ::
  "(string \<Rightarrow> 'c \<Rightarrow> (thrown + string) \<times> 'c) \<Rightarrow> (string \<Rightarrow> bool) \<Rightarrow> string
     \<Rightarrow> ('c, string list) async" where
  "readAddressesFromFile readFile validKey filePath =
     withRetry_default
       (\<lambda>w. case external_call (readFile filePath) w of
               None \<Rightarrow> None
             | Some (Inl e, w1) \<Rightarrow> Some (Inl e, w1)
             | Some (Inr contents, w1) \<Rightarrow>
                 (case readAddresses_lines validKey (split CHR 0x0A (trim contents)) [] w1 of
                    (addresses, w2) \<Rightarrow> Some (Inr addresses, w2)))"

section \<open>The total transaction count\<close>

text \<open>
  The body of the \<open>try\<close> block for one address runs on the running total
  \<open>totalTransactions\<close>, which it updates in place: whatever it has added when a thrown value
  leaves the block stays added. So the block yields the total next to its outcome.
\<close>

type_synonym 'c counting = "((thrown + unit) \<times> nat \<times> 'c world) option"

text \<open>The two \<open>console.log\<close> calls that end the \<open>try\<close> block.\<close>

definition endOfTry :: "nat \<Rightarrow> 'c world \<Rightarrow> 'c counting" where
  "endOfTry totalTransactions w =
     Some (Inr (), totalTransactions, emit Separator (emit (AccumulatingTotal totalTransactions) w))"

fun associatedStakeAccounts_loop ::
  "'c connection \<Rightarrow> (string \<Rightarrow> bool) \<Rightarrow> string list \<Rightarrow> nat \<Rightarrow> 'c world \<Rightarrow> 'c counting" where
  "associatedStakeAccounts_loop connection validKey [] totalTransactions w =
     endOfTry totalTransactions w"
| "associatedStakeAccounts_loop connection validKey (stakeAccount # rest) totalTransactions w =
     (case getSignaturesForAddress connection validKey stakeAccount ''confirmed''
             (emit (ProcessingAssociatedStakeAccount stakeAccount) w) of
        None \<Rightarrow> None
      | Some (Inl e, w1) \<Rightarrow> Some (Inl e, totalTransactions, w1)
      | Some (Inr signatures, w1) \<Rightarrow>
          associatedStakeAccounts_loop connection validKey rest
            (totalTransactions + length signatures)
            (emit (TotalForAssociatedStakeAccount (length signatures)) w1))"

definition stakeAccountBranch ::
  "'c connection \<Rightarrow> (string \<Rightarrow> bool) \<Rightarrow> string \<Rightarrow> nat \<Rightarrow> 'c world \<Rightarrow> 'c counting" where
  "stakeAccountBranch connection validKey address totalTransactions w =
     (case getSignaturesForAddress connection validKey address ''confirmed''
             (emit AddressIsStakeAccount w) of
        None \<Rightarrow> None
      | Some (Inl e, w1) \<Rightarrow> Some (Inl e, totalTransactions, w1)
      | Some (Inr signatures, w1) \<Rightarrow>
          endOfTry (totalTransactions + length signatures)
            (emit (TotalForStakeAccount (length signatures)) w1))"

definition mainAuthorityBranch ::
  "'c connection \<Rightarrow> (string \<Rightarrow> bool) \<Rightarrow> string \<Rightarrow> nat \<Rightarrow> 'c world \<Rightarrow> 'c counting" where
  "mainAuthorityBranch connection validKey address totalTransactions w =
     (case getSignaturesForAddress connection validKey address ''confirmed''
             (emit AddressIsMainAuthority w) of
        None \<Rightarrow> None
      | Some (Inl e, w1) \<Rightarrow> Some (Inl e, totalTransactions, w1)
      | Some (Inr signatures, w1) \<Rightarrow>
          (case getAssociatedStakeAccounts connection address
                  (emit (TotalForMainAuthority (length signatures)) w1) of
             None \<Rightarrow> None
           | Some (Inl e, w2) \<Rightarrow> Some (Inl e, totalTransactions + length signatures, w2)
           | Some (Inr associatedStakeAccounts, w2) \<Rightarrow>
               associatedStakeAccounts_loop connection validKey associatedStakeAccounts
                 (totalTransactions + length signatures) w2))"

definition normalAccountBranch ::
  "'c connection \<Rightarrow> (string \<Rightarrow> bool) \<Rightarrow> string \<Rightarrow> nat \<Rightarrow> 'c world \<Rightarrow> 'c counting" where
  "normalAccountBranch connection validKey address totalTransactions w =
     (case getSignaturesForAddress connection validKey address ''confirmed''
             (emit AddressIsNormalAccount w) of
        None \<Rightarrow> None
      | Some (Inl e, w1) \<Rightarrow> Some (Inl e, totalTransactions, w1)
      | Some (Inr signatures, w1) \<Rightarrow>
          endOfTry (totalTransactions + length signatures)
            (emit (TotalForNormalAccount (length signatures)) w1))"

text \<open>The \<open>try\<close> block: the account lookup and the chain of \<open>if \<dots> else if\<close>.\<close>

definition tryAddress ::
  "'c connection \<Rightarrow> (string \<Rightarrow> bool) \<Rightarrow> string \<Rightarrow> nat \<Rightarrow> 'c world \<Rightarrow> 'c counting" where
  "tryAddress connection validKey address totalTransactions w =
     (case withRetry_default
             (\<lambda>w. case new_PublicKey validKey address of
                     Inl e \<Rightarrow> Some (Inl e, w)
                   | Inr publicKey \<Rightarrow>
                       external_call (rpc_getParsedAccountInfo connection publicKey) w)
             (emit (ProcessingAddress address) w) of
        None \<Rightarrow> None
      | Some (Inl e, w1) \<Rightarrow> Some (Inl e, totalTransactions, w1)
      | Some (Inr accountInfo, w1) \<Rightarrow>
          (if program_of accountInfo = Some ''stake'' then
             stakeAccountBranch connection validKey address totalTransactions w1
           else
             (case hasStakeAccount connection address w1 of
                None \<Rightarrow> None
              | Some (Inl e, w2) \<Rightarrow> Some (Inl e, totalTransactions, w2)
              | Some (Inr True, w2) \<Rightarrow>
                  mainAuthorityBranch connection validKey address totalTransactions w2
              | Some (Inr False, w2) \<Rightarrow>
                  (case hasStakeAccount connection address w2 of
                     None \<Rightarrow> None
                   | Some (Inl e, w3) \<Rightarrow> Some (Inl e, totalTransactions, w3)
                   | Some (Inr again, w3) \<Rightarrow>
                       (if \<not> again \<and> program_of accountInfo \<noteq> Some ''stake'' then
                          normalAccountBranch connection validKey address totalTransactions w3
                        else endOfTry totalTransactions (emit InvalidAddressBranch w3))))))"

text \<open>
  The \<open>for\<close> loop over the addresses, with \<open>totalTransactions\<close> as argument; the
  \<open>catch\<close> clause reports the thrown value and goes on with the next address.
\<close>

fun getTotalTransactionCount_loop ::
  "'c connection \<Rightarrow> (string \<Rightarrow> bool) \<Rightarrow> string list \<Rightarrow> nat \<Rightarrow> 'c world
     \<Rightarrow> (nat \<times> 'c world) option" where
  "getTotalTransactionCount_loop connection validKey [] totalTransactions w =
     Some (totalTransactions, w)"
| "getTotalTransactionCount_loop connection validKey (address # rest) totalTransactions w =
     (case tryAddress connection validKey address totalTransactions w of
        None \<Rightarrow> None
      | Some (Inr u, total1, w1) \<Rightarrow>
          getTotalTransactionCount_loop connection validKey rest total1 w1
      | Some (Inl error, total1, w1) \<Rightarrow>
          getTotalTransactionCount_loop connection validKey rest total1
            (emit (ErrorProcessingAddress address error) w1))"

definition getTotalTransactionCount ::
  "'c connection \<Rightarrow> (string \<Rightarrow> bool) \<Rightarrow> string list \<Rightarrow> 'c world \<Rightarrow> (nat \<times> 'c world) option" where
  "getTotalTransactionCount connection validKey addresses w =
     getTotalTransactionCount_loop connection validKey addresses 0 w"

section \<open>Test doubles and observations\<close>

text \<open>
  A spy around an external operation: the state carries, next to the operation's own state,
  the number of times the operation has been invoked.
\<close>

definition counted :: "('c \<Rightarrow> (thrown + 'a) \<times> 'c) \<Rightarrow> 'c \<times> nat \<Rightarrow> (thrown + 'a) \<times> ('c \<times> nat)" where
  "counted f s = (case f (fst s) of (r, c') \<Rightarrow> (r, (c', Suc (snd s))))"

text \<open>Three operations on a counter: failing twice and then succeeding, failing every time
  with an \<open>Error\<close>, and rejecting with \<open>undefined\<close>.\<close>

definition fails_twice :: "nat \<Rightarrow> (thrown + nat) \<times> nat" where
  "fails_twice k = (if k < 2 then Inl (Error ''timeout'') else Inr 42, Suc k)"

definition always_fails :: "nat \<Rightarrow> (thrown + nat) \<times> nat" where
  "always_fails k = (Inl (Error ''timeout''), Suc k)"

definition rejects_with_undefined :: "nat \<Rightarrow> (thrown + nat) \<times> nat" where
  "rejects_with_undefined k = (Inl Undefined, Suc k)"




text \<open>An external operation that is not available to a test.\<close>

definition unavailable :: "'c \<Rightarrow> (thrown + 'a) \<times> 'c" where
  "unavailable c = (Inl (Error ''not available''), c)"

text \<open>
  A scripted signature source: the call number k is answered with the k-th batch of the
  script, whatever it asks for, and the options of every call are recorded.
\<close>

record script_state =
  responses :: "signature_info list list"
  requests :: "signatures_options list"

definition scripted_getSignaturesForAddress ::
  "public_key \<Rightarrow> signatures_options \<Rightarrow> script_state
     \<Rightarrow> (thrown + signature_info list) \<times> script_state" where
  "scripted_getSignaturesForAddress publicKey options s =
     (case responses s of
        [] \<Rightarrow> (Inl (Error ''end of script''), s\<lparr>requests := requests s @ [options]\<rparr>)
      | batch # batches \<Rightarrow>
          (Inr batch, \<lparr>responses = batches, requests = requests s @ [options]\<rparr>))"

definition scripted_connection :: "script_state connection" where
  "scripted_connection =
     \<lparr>rpc_getParsedAccountInfo = (\<lambda>publicKey. unavailable),
      rpc_getProgramAccounts = (\<lambda>programId filters. unavailable),
      rpc_getSignaturesForAddress = scripted_getSignaturesForAddress\<rparr>"

text \<open>The options of the call that follows the cursor \<open>lastSignature\<close>.\<close>

definition page_request :: "string \<Rightarrow> string option \<Rightarrow> signatures_options" where
  "page_request commitment_level lastSignature =
     \<lparr>before = lastSignature, limit = 1000, commitment = commitment_level\<rparr>"

text \<open>
  Whether a source, asked page after page as the loop does from the cursor
  \<open>lastSignature\<close> on, answers with a batch of fewer than 1000 records within n calls.
\<close>

fun short_batch_within ::
  "nat \<Rightarrow> 'c connection \<Rightarrow> public_key \<Rightarrow> string \<Rightarrow> string option \<Rightarrow> 'c \<Rightarrow> bool" where
  "short_batch_within 0 connection publicKey commitment_level lastSignature c = False"
| "short_batch_within (Suc n) connection publicKey commitment_level lastSignature c =
     (case rpc_getSignaturesForAddress connection publicKey
             \<lparr>before = lastSignature, limit = 1000, commitment = commitment_level\<rparr> c of
        (Inl e, c') \<Rightarrow> False
      | (Inr batch, c') \<Rightarrow>
          (if length batch < 1000 then True
           else if length batch = 1000 then
             short_batch_within n connection publicKey commitment_level
               (Some (signature (last batch))) c'
           else False))"

text \<open>A record with a given signature, and a key library that accepts every string.\<close>

definition sig :: "string \<Rightarrow> signature_info" where
  "sig s = \<lparr>signature = s, slot = 0\<rparr>"

definition anyKey :: "string \<Rightarrow> bool" where
  "anyKey address = True"

text \<open>A file system in which every path holds the given contents, and a key library that
  accepts exactly the strings \<open>A\<close> and \<open>B\<close>.\<close>

definition file_with :: "string \<Rightarrow> string \<Rightarrow> 'c \<Rightarrow> (thrown + string) \<times> 'c" where
  "file_with contents filePath c = (Inr contents, c)"

definition keysAB :: "string \<Rightarrow> bool" where
  "keysAB address = (address = ''A'' \<or> address = ''B'')"

text \<open>
  A spy around a connection: it answers as the connection does and records the program and
  the filters of every account scan.
\<close>

record 'c recorder =
  inner :: 'c
  scans :: "(public_key \<times> filter list) list"

definition recording :: "'c connection \<Rightarrow> 'c recorder connection" where
  "recording connection =
     \<lparr>rpc_getParsedAccountInfo =
        (\<lambda>publicKey s. case rpc_getParsedAccountInfo connection publicKey (inner s) of
                          (r, c') \<Rightarrow> (r, s\<lparr>inner := c'\<rparr>)),
      rpc_getProgramAccounts =
        (\<lambda>programId filters s.
           case rpc_getProgramAccounts connection programId filters (inner s) of
             (r, c') \<Rightarrow> (r, \<lparr>inner = c', scans = scans s @ [(programId, filters)]\<rparr>)),
      rpc_getSignaturesForAddress =
        (\<lambda>publicKey options s.
           case rpc_getSignaturesForAddress connection publicKey options (inner s) of
             (r, c') \<Rightarrow> (r, s\<lparr>inner := c'\<rparr>))\<rparr>"

text \<open>A connection on which no stake account matches any scan.\<close>

definition no_stake_accounts :: "unit connection" where
  "no_stake_accounts =
     \<lparr>rpc_getParsedAccountInfo = (\<lambda>publicKey. unavailable),
      rpc_getProgramAccounts = (\<lambda>programId filters c. (Inr [], c)),
      rpc_getSignaturesForAddress = (\<lambda>publicKey options. unavailable)\<rparr>"

text \<open>
  A ledger with fixed contents: for every address its account, its signature history
  (newest first), and for every scan the accounts that match it.
\<close>

record ledger =
  accountInfo_of :: "string \<Rightarrow> account_info option"
  programAccounts_of :: "public_key \<Rightarrow> filter list \<Rightarrow> keyed_account list"
  history_of :: "string \<Rightarrow> signature_info list"

text \<open>A page of a history: at most n records, those after the record with the signature
  \<open>lastSignature\<close> when there is a cursor.\<close>

definition page :: "signature_info list \<Rightarrow> string option \<Rightarrow> nat \<Rightarrow> signature_info list" where
  "page history lastSignature n =
     take n (case lastSignature of
               None \<Rightarrow> history
             | Some s \<Rightarrow> drop 1 (dropWhile (\<lambda>x. signature x \<noteq> s) history))"

text \<open>
  A connection to such a ledger, on which the account lookup of the addresses in
  \<open>lookupFails\<close> and the signature listing of the addresses in \<open>historyFails\<close> fail
  whenever they are called. \<open>ledger_connection\<close> is the connection without failures.
\<close>

definition faulty_connection ::
  "ledger \<Rightarrow> (string \<Rightarrow> bool) \<Rightarrow> (string \<Rightarrow> bool) \<Rightarrow> 'c connection" where
  "faulty_connection L lookupFails historyFails =
     \<lparr>rpc_getParsedAccountInfo =
        (\<lambda>publicKey c.
           if lookupFails (toBase58 publicKey) then (Inl (Error ''lookup failed''), c)
           else (Inr (accountInfo_of L (toBase58 publicKey)), c)),
      rpc_getProgramAccounts =
        (\<lambda>programId filters c. (Inr (programAccounts_of L programId filters), c)),
      rpc_getSignaturesForAddress =
        (\<lambda>publicKey options c.
           if historyFails (toBase58 publicKey) then (Inl (Error ''history failed''), c)
           else (Inr (page (history_of L (toBase58 publicKey)) (before options) (limit options)),
                 c))\<rparr>"

definition never :: "string \<Rightarrow> bool" where
  "never address = False"

definition ledger_connection :: "ledger \<Rightarrow> 'c connection" where
  "ledger_connection L = faulty_connection L never never"

text \<open>
  What the ledger holds about an address: the number of its signatures, the stake accounts
  that the scan for it as authority finds, and the two signals of the classification.
\<close>

definition signatureCount :: "ledger \<Rightarrow> string \<Rightarrow> nat" where
  "signatureCount L address = length (history_of L address)"

definition associatedStakeAccounts_of :: "ledger \<Rightarrow> string \<Rightarrow> string list" where
  "associatedStakeAccounts_of L address =
     map (\<lambda>account. toBase58 (pubkey account))
       (programAccounts_of L StakeProgram_programId [DataSize 200, Memcmp 44 address])"

definition isStakeAccountItself :: "ledger \<Rightarrow> string \<Rightarrow> bool" where
  "isStakeAccountItself L address = (program_of (accountInfo_of L address) = Some ''stake'')"

definition hasAssociatedStakeAccounts :: "ledger \<Rightarrow> string \<Rightarrow> bool" where
  "hasAssociatedStakeAccounts L address = (associatedStakeAccounts_of L address \<noteq> [])"

text \<open>
  The count that the specification attributes to one address: its own signature count plus,
  for an authority account (not a stake account itself, with associated stake accounts), the
  signature counts of its associated stake accounts.
\<close>

definition spec_count :: "ledger \<Rightarrow> string \<Rightarrow> nat" where
  "spec_count L address =
     signatureCount L address +
     (if \<not> isStakeAccountItself L address \<and> hasAssociatedStakeAccounts L address
      then sum_list (map (signatureCount L) (associatedStakeAccounts_of L address))
      else 0)"

text \<open>
  The count of one address on a faulty connection: nothing when the address is no key or
  its lookup or its own signature listing fails; otherwise its own signature count plus, for
  an authority account, the counts of the associated stake accounts that come before the
  first one whose listing fails.
\<close>

definition fetchable :: "(string \<Rightarrow> bool) \<Rightarrow> (string \<Rightarrow> bool) \<Rightarrow> string \<Rightarrow> bool" where
  "fetchable validKey historyFails address = (validKey address \<and> \<not> historyFails address)"

definition faulty_count ::
  "ledger \<Rightarrow> (string \<Rightarrow> bool) \<Rightarrow> (string \<Rightarrow> bool) \<Rightarrow> (string \<Rightarrow> bool) \<Rightarrow> string \<Rightarrow> nat" where
  "faulty_count L validKey lookupFails historyFails address =
     (if validKey address \<and> \<not> lookupFails address \<and> \<not> historyFails address then
        signatureCount L address +
        (if \<not> isStakeAccountItself L address \<and> hasAssociatedStakeAccounts L address
         then sum_list (map (signatureCount L)
                (takeWhile (fetchable validKey historyFails) (associatedStakeAccounts_of L address)))
         else 0)
      else 0)"

text \<open>Whether the processing of one address on a faulty connection ends without a thrown
  value.\<close>

definition completes ::
  "ledger \<Rightarrow> (string \<Rightarrow> bool) \<Rightarrow> (string \<Rightarrow> bool) \<Rightarrow> (string \<Rightarrow> bool) \<Rightarrow> string \<Rightarrow> bool" where
  "completes L validKey lookupFails historyFails address =
     (validKey address \<and> \<not> lookupFails address \<and> \<not> historyFails address \<and>
      (isStakeAccountItself L address \<or> \<not> hasAssociatedStakeAccounts L address \<or>
       list_all (fetchable validKey historyFails) (associatedStakeAccounts_of L address)))"

text \<open>
  A small ledger. \<open>A\<close> is an authority with the stake accounts \<open>S1\<close> and \<open>S2\<close>; \<open>N\<close> is
  an ordinary account; \<open>X\<close> is reported both as a stake account itself and as the authority
  of \<open>S1\<close>. The key library \<open>sample_keys\<close> accepts every string but \<open>not-an-address\<close>.
\<close>

definition sample_ledger :: ledger where
  "sample_ledger =
     \<lparr>accountInfo_of =
        (\<lambda>address.
           if address = ''S1'' \<or> address = ''S2'' \<or> address = ''X''
           then Some \<lparr>data = ParsedAccountData ''stake''\<rparr>
           else if address = ''N'' then Some \<lparr>data = RawData\<rparr>
           else None),
      programAccounts_of =
        (\<lambda>programId filters.
           if programId = StakeProgram_programId \<and> filters = [DataSize 200, Memcmp 44 ''A'']
           then [\<lparr>pubkey = PublicKey ''S1''\<rparr>, \<lparr>pubkey = PublicKey ''S2''\<rparr>]
           else if programId = StakeProgram_programId \<and> filters = [DataSize 200, Memcmp 44 ''X'']
           then [\<lparr>pubkey = PublicKey ''S1''\<rparr>]
           else []),
      history_of =
        (\<lambda>address.
           if address = ''A'' then [sig ''a2'', sig ''a1'']
           else if address = ''S1'' then [sig ''s3'', sig ''s2'', sig ''s1'']
           else if address = ''S2'' then [sig ''t1'']
           else if address = ''N'' then [sig ''n4'', sig ''n3'', sig ''n2'', sig ''n1'']
           else if address = ''X'' then [sig ''x1'']
           else [])\<rparr>"

definition sample_keys :: "string \<Rightarrow> bool" where
  "sample_keys address = (address \<noteq> ''not-an-address'')"

definition only_N :: "string \<Rightarrow> bool" where
  "only_N address = (address = ''N'')"

definition only_S2 :: "string \<Rightarrow> bool" where
  "only_S2 address = (address = ''S2'')"

text \<open>
  The account lookup with which the \<open>try\<close> block of \<open>getTotalTransactionCount\<close> begins,
  \<^verbatim>\<open>withRetry(() => connection.getParsedAccountInfo(new PublicKey(address)))\<close>, by name.
\<close>

definition getParsedAccountInfo_withRetry ::
  "'c connection \<Rightarrow> (string \<Rightarrow> bool) \<Rightarrow> string \<Rightarrow> ('c, account_info option) async" where
  "getParsedAccountInfo_withRetry connection validKey address =
     withRetry_default
       (\<lambda>w. case new_PublicKey validKey address of
               Inl e \<Rightarrow> Some (Inl e, w)
             | Inr publicKey \<Rightarrow>
                 external_call (rpc_getParsedAccountInfo connection publicKey) w)"

text \<open>
  What a trace tells about the total: the sum of the signature counts that it reports (each
  line \<^verbatim>\<open>Total transactions for ...: n\<close> goes with one addition of n to the total), and
  the addresses whose processing it reports to have begun.
\<close>

fun logged_counts :: "event list \<Rightarrow> nat" where
  "logged_counts [] = 0"
| "logged_counts (TotalForStakeAccount n # evs) = n + logged_counts evs"
| "logged_counts (TotalForMainAuthority n # evs) = n + logged_counts evs"
| "logged_counts (TotalForAssociatedStakeAccount n # evs) = n + logged_counts evs"
| "logged_counts (TotalForNormalAccount n # evs) = n + logged_counts evs"
| "logged_counts (e # evs) = logged_counts evs"

fun processed :: "event list \<Rightarrow> string list" where
  "processed [] = []"
| "processed (ProcessingAddress address # evs) = address # processed evs"
| "processed (e # evs) = processed evs"

text \<open>Events that report no count and no address: \<open>w'\<close> continues \<open>w\<close> by such events only;
  and \<open>total1, w1\<close> continue \<open>total0, w\<close> by events that account for the growth of the
  total and report the addresses \<open>as\<close>.\<close>

definition quiet :: "event list \<Rightarrow> bool" where
  "quiet evs = (logged_counts evs = 0 \<and> processed evs = [])"

definition quietly_extends :: "'c world \<Rightarrow> 'c world \<Rightarrow> bool" where
  "quietly_extends w w' = (\<exists>evs. trace w' = trace w @ evs \<and> quiet evs)"

definition accounts :: "nat \<Rightarrow> 'c world \<Rightarrow> string list \<Rightarrow> nat \<Rightarrow> 'c world \<Rightarrow> bool" where
  "accounts total0 w as total1 w1 =
     (\<exists>evs. trace w1 = trace w @ evs \<and> total1 = total0 + logged_counts evs \<and> processed evs = as)"

text \<open>
  A connection to a ledger on which the account scans fail from the scan number k on (the
  state counts the scans made so far); lookups and signature listings never fail.
\<close>

definition failing_scans :: "ledger \<Rightarrow> nat \<Rightarrow> nat connection" where
  "failing_scans L k =
     \<lparr>rpc_getParsedAccountInfo =
        (\<lambda>publicKey c. (Inr (accountInfo_of L (toBase58 publicKey)), c)),
      rpc_getProgramAccounts =
        (\<lambda>programId filters c.
           (if k \<le> c then Inl (Error ''scan failed'')
            else Inr (programAccounts_of L programId filters), Suc c)),
      rpc_getSignaturesForAddress =
        (\<lambda>publicKey options c.
           (Inr (page (history_of L (toBase58 publicKey)) (before options) (limit options)), c))\<rparr>"

definition only_A :: "string \<Rightarrow> bool" where
  "only_A address = (address = ''A'')"


section \<open>Properties of withRetry\<close>

lemma withRetry_loop_success:
  "attempt \<le> maxAttempts \<Longrightarrow> operation w = Some (Inr v, w1) \<Longrightarrow>
   withRetry_loop operation maxAttempts attempt delay lastError w = Some (Inr v, w1)"
  by (subst withRetry_loop.simps) simp

lemma withRetry_loop_failure_retry:
  "attempt < maxAttempts \<Longrightarrow> operation w = Some (Inl (Error m), w1) \<Longrightarrow>
   withRetry_loop operation maxAttempts attempt delay lastError w =
   withRetry_loop operation maxAttempts (attempt + 1) (delay * 2) (Error m)
     (emit (Sleep delay) (emit (WaitingBeforeRetry delay)
        (emit (AttemptFailed attempt maxAttempts (Error m)) w1)))"
  by (subst withRetry_loop.simps) (simp add: Let_def)

lemma withRetry_loop_failure_last:
  "operation w = Some (Inl (Error m), w1) \<Longrightarrow>
   withRetry_loop operation maxAttempts maxAttempts delay lastError w =
   Some (Inl (Error m), emit (AttemptFailed maxAttempts maxAttempts (Error m)) w1)"
  apply (subst withRetry_loop.simps)
  apply (simp add: Let_def)
  apply (subst withRetry_loop.simps)
  apply simp
  done

lemma withRetry_loop_failure_undefined:
  "attempt \<le> maxAttempts \<Longrightarrow> operation w = Some (Inl Undefined, w1) \<Longrightarrow>
   withRetry_loop operation maxAttempts attempt delay lastError w =
   Some (Inl TypeError_message_of_undefined, w1)"
  by (subst withRetry_loop.simps) simp

lemma external_call_counted:
  "f c = (r, c') \<Longrightarrow>
   external_call (counted f) \<lparr>ext = (c, n), trace = t\<rparr> = Some (r, \<lparr>ext = (c', Suc n), trace = t\<rparr>)"
  by (simp add: external_call_def counted_def)

text \<open>
  C10. With \<open>maxAttempts\<close> below 1 the loop body is never entered: the operation is not
  invoked (whatever it is, the world is left as it was) and the value thrown is
  \<open>lastError\<close>, still \<open>undefined\<close>.
\<close>

theorem withRetry_no_attempts:
  "maxAttempts < 1 \<Longrightarrow> withRetry operation maxAttempts delay w = Some (Inl Undefined, w)"
  by (simp add: withRetry_def withRetry_loop.simps)

theorem withRetry_no_attempts_witness:
  "(0::int) < 1 \<and>
   withRetry (external_call (counted always_fails)) 0 1000 \<lparr>ext = (0, 0), trace = []\<rparr> =
     Some (Inl Undefined, \<lparr>ext = (0, 0), trace = []\<rparr>)"
  using withRetry_no_attempts [of 0 "external_call (counted always_fails)" 1000
          "\<lparr>ext = (0, 0), trace = []\<rparr>"]
  by simp

text \<open>
  C5, amended. Let the failures of an operation be \<open>Error\<close> objects and \<open>maxAttempts = 3\<close>.
  If the operation fails twice and then succeeds, it is invoked exactly 3 times and the
  success value is returned. If it fails three times, it is invoked exactly 3 times, the
  failure of the third attempt is thrown to the caller, and there is no fourth attempt.
  In both cases the log and the waits are as listed.
\<close>

theorem withRetry_three_attempts:
  assumes "f c0 = (Inl (Error m1), c1)" and "f c1 = (Inl (Error m2), c2)"
  shows "(f c2 = (Inr v, c3) \<longrightarrow>
            withRetry (external_call (counted f)) 3 delay \<lparr>ext = (c0, n), trace = t\<rparr> =
              Some (Inr v, \<lparr>ext = (c3, n + 3), trace = t @
                [AttemptFailed 1 3 (Error m1), WaitingBeforeRetry delay, Sleep delay,
                 AttemptFailed 2 3 (Error m2), WaitingBeforeRetry (delay * 2), Sleep (delay * 2)]\<rparr>))
       \<and> (f c2 = (Inl (Error m3), c3) \<longrightarrow>
            withRetry (external_call (counted f)) 3 delay \<lparr>ext = (c0, n), trace = t\<rparr> =
              Some (Inl (Error m3), \<lparr>ext = (c3, n + 3), trace = t @
                [AttemptFailed 1 3 (Error m1), WaitingBeforeRetry delay, Sleep delay,
                 AttemptFailed 2 3 (Error m2), WaitingBeforeRetry (delay * 2), Sleep (delay * 2),
                 AttemptFailed 3 3 (Error m3)]\<rparr>))"
  using assms
  by (auto simp add: withRetry_def withRetry_loop_failure_retry withRetry_loop_failure_last
        withRetry_loop_success external_call_counted emit_def)

theorem withRetry_three_attempts_witness:
  "withRetry (external_call (counted fails_twice)) 3 1000 \<lparr>ext = (0, 0), trace = []\<rparr> =
     Some (Inr 42, \<lparr>ext = (3, 3), trace =
       [AttemptFailed 1 3 (Error ''timeout''), WaitingBeforeRetry 1000, Sleep 1000,
        AttemptFailed 2 3 (Error ''timeout''), WaitingBeforeRetry 2000, Sleep 2000]\<rparr>)
   \<and> withRetry (external_call (counted always_fails)) 3 1000 \<lparr>ext = (0, 0), trace = []\<rparr> =
     Some (Inl (Error ''timeout''), \<lparr>ext = (3, 3), trace =
       [AttemptFailed 1 3 (Error ''timeout''), WaitingBeforeRetry 1000, Sleep 1000,
        AttemptFailed 2 3 (Error ''timeout''), WaitingBeforeRetry 2000, Sleep 2000,
        AttemptFailed 3 3 (Error ''timeout'')]\<rparr>)"
proof -
  have a: "fails_twice 0 = (Inl (Error ''timeout''), 1)" "fails_twice 1 = (Inl (Error ''timeout''), 2)"
    "fails_twice 2 = (Inr 42, 3)"
    by (simp_all add: fails_twice_def)
  have b: "always_fails 0 = (Inl (Error ''timeout''), 1)" "always_fails 1 = (Inl (Error ''timeout''), 2)"
    "always_fails 2 = (Inl (Error ''timeout''), 3)"
    by (simp_all add: always_fails_def)
  from withRetry_three_attempts [OF a(1) a(2), of 42 3 1000 0 "[]"] a(3)
  have "withRetry (external_call (counted fails_twice)) 3 1000 \<lparr>ext = (0, 0), trace = []\<rparr> =
     Some (Inr 42, \<lparr>ext = (3, 3), trace =
       [AttemptFailed 1 3 (Error ''timeout''), WaitingBeforeRetry 1000, Sleep 1000,
        AttemptFailed 2 3 (Error ''timeout''), WaitingBeforeRetry 2000, Sleep 2000]\<rparr>)"
    by simp
  moreover from withRetry_three_attempts [OF b(1) b(2), of _ 3 1000 0 "[]" "''timeout''"] b(3)
  have "withRetry (external_call (counted always_fails)) 3 1000 \<lparr>ext = (0, 0), trace = []\<rparr> =
     Some (Inl (Error ''timeout''), \<lparr>ext = (3, 3), trace =
       [AttemptFailed 1 3 (Error ''timeout''), WaitingBeforeRetry 1000, Sleep 1000,
        AttemptFailed 2 3 (Error ''timeout''), WaitingBeforeRetry 2000, Sleep 2000,
        AttemptFailed 3 3 (Error ''timeout'')]\<rparr>)"
    by simp
  ultimately show ?thesis by simp
qed

text \<open>
  C5 as stated fails for an operation that rejects with \<open>undefined\<close>: the \<open>catch\<close> clause
  reads \<open>error.message\<close>, which raises a TypeError that leaves \<open>withRetry\<close> at once.
  The operation has been invoked once, not 3 times, and what is thrown is not its failure.
\<close>

theorem withRetry_undefined_rejection_counterexample:
  "withRetry (external_call (counted rejects_with_undefined)) 3 1000 \<lparr>ext = (0, 0), trace = []\<rparr> =
     Some (Inl TypeError_message_of_undefined, \<lparr>ext = (1, 1), trace = []\<rparr>)
   \<and> TypeError_message_of_undefined \<noteq> Undefined"
  by (simp add: withRetry_def withRetry_loop_failure_undefined external_call_counted
        rejects_with_undefined_def TypeError_message_of_undefined_def)

lemma withRetry_loop_settles:
  assumes op: "\<forall>w. \<exists>r w1. operation w = Some (r, w1)"
  shows "\<exists>r w'. withRetry_loop operation maxAttempts attempt delay lastError w = Some (r, w')"
proof (induction n \<equiv> "nat (maxAttempts + 1 - attempt)" arbitrary: attempt delay lastError w)
  case 0
  then have "\<not> attempt \<le> maxAttempts" by simp
  then show ?case by (subst withRetry_loop.simps) simp
next
  case (Suc n)
  then have le: "attempt \<le> maxAttempts" by simp
  from op obtain r1 w1 where call: "operation w = Some (r1, w1)" by blast
  show ?case
  proof (cases r1)
    case (Inr v)
    with call le show ?thesis by (simp add: withRetry_loop_success)
  next
    case (Inl e)
    show ?thesis
    proof (cases e)
      case Undefined
      with Inl call le show ?thesis by (simp add: withRetry_loop_failure_undefined)
    next
      case (Error m)
      show ?thesis
      proof (cases "attempt < maxAttempts")
        case True
        have "n = nat (maxAttempts + 1 - (attempt + 1))" using Suc.hyps(2) by simp
        from Suc.hyps(1) [OF this] show ?thesis
          using call Inl Error True by (simp add: withRetry_loop_failure_retry)
      next
        case False
        with le have "attempt = maxAttempts" by simp
        with call Inl Error show ?thesis by (simp add: withRetry_loop_failure_last)
      qed
    qed
  qed
qed








section \<open>Properties of the signature pagination\<close>

lemma withRetry_default_success:
  "operation w = Some (Inr v, w1) \<Longrightarrow> withRetry_default operation w = Some (Inr v, w1)"
  by (simp add: withRetry_default_def withRetry_def withRetry_loop_success)

lemma scripted_loop:
  "\<forall>b \<in> set fullBatches. length b = 1000 \<Longrightarrow> length lastBatch < 1000 \<Longrightarrow>
   getSignaturesForAddress_loop scripted_connection publicKey commitment_level signatures lastSignature
     \<lparr>ext = \<lparr>responses = fullBatches @ lastBatch # rest, requests = reqs\<rparr>, trace = t\<rparr> =
   Some (Inr (signatures @ concat fullBatches @ lastBatch),
     \<lparr>ext = \<lparr>responses = rest,
              requests = reqs @ map (page_request commitment_level)
                (lastSignature # map (\<lambda>b. Some (signature (last b))) fullBatches)\<rparr>,
      trace = t\<rparr>)"
proof (induction fullBatches arbitrary: signatures lastSignature reqs)
  case Nil
  then show ?case
    by (subst getSignaturesForAddress_loop.simps)
       (simp add: external_call_def scripted_connection_def scripted_getSignaturesForAddress_def
          page_request_def)
next
  case (Cons b bs)
  then have b: "length b = 1000" and bs: "\<forall>b \<in> set bs. length b = 1000" by simp_all
  show ?case
    by (subst getSignaturesForAddress_loop.simps)
       (simp add: external_call_def scripted_connection_def [symmetric]
          scripted_getSignaturesForAddress_def page_request_def b
          Cons.IH [OF bs Cons.prems(2)]
          scripted_connection_def [THEN arg_cong, of rpc_getSignaturesForAddress, simplified])
qed

text \<open>
  C4. Let the source answer with batches of exactly 1000 records and then with a batch of
  fewer than 1000. Then \<open>getSignaturesForAddress\<close> returns the batches concatenated in
  the order fetched and stops at the short batch: it makes one call more than there are
  full batches, and leaves the rest of the script untouched. Every call asks for at most
  1000 records; the first has no cursor, and each later one has as its \<open>before\<close> cursor the
  signature of the last (oldest) record of the batch before it.
\<close>

theorem getSignaturesForAddress_pagination:
  assumes "validKey address"
    and "\<forall>b \<in> set fullBatches. length b = 1000"
    and "length lastBatch < 1000"
  shows "getSignaturesForAddress scripted_connection validKey address commitment_level
           \<lparr>ext = \<lparr>responses = fullBatches @ lastBatch # rest, requests = []\<rparr>, trace = t\<rparr> =
         Some (Inr (concat fullBatches @ lastBatch),
           \<lparr>ext = \<lparr>responses = rest,
                    requests = map (page_request commitment_level)
                      (None # map (\<lambda>b. Some (signature (last b))) fullBatches)\<rparr>,
            trace = t\<rparr>)"
  unfolding getSignaturesForAddress_def
  by (rule withRetry_default_success)
     (simp add: new_PublicKey_def assms(1) scripted_loop [OF assms(2) assms(3), of _ _ "[]" None rest "[]", simplified])

theorem getSignaturesForAddress_pagination_witness:
  "getSignaturesForAddress scripted_connection anyKey ''A'' ''confirmed''
     \<lparr>ext = \<lparr>responses = [replicate 1000 (sig ''a''), replicate 1000 (sig ''b''),
                            replicate 200 (sig ''c'')],
              requests = []\<rparr>, trace = []\<rparr> =
   Some (Inr (replicate 1000 (sig ''a'') @ replicate 1000 (sig ''b'') @ replicate 200 (sig ''c'')),
     \<lparr>ext = \<lparr>responses = [],
              requests = [page_request ''confirmed'' None, page_request ''confirmed'' (Some ''a''),
                          page_request ''confirmed'' (Some ''b'')]\<rparr>,
      trace = []\<rparr>)
   \<and> length (replicate 1000 (sig ''a'') @ replicate 1000 (sig ''b'') @ replicate 200 (sig ''c''))
       = 2200
   \<and> getSignaturesForAddress scripted_connection anyKey ''A'' ''confirmed''
     \<lparr>ext = \<lparr>responses = [replicate 1000 (sig ''a''), []], requests = []\<rparr>, trace = []\<rparr> =
   Some (Inr (replicate 1000 (sig ''a'')),
     \<lparr>ext = \<lparr>responses = [],
              requests = [page_request ''confirmed'' None, page_request ''confirmed'' (Some ''a'')]\<rparr>,
      trace = []\<rparr>)"
proof -
  have key: "anyKey ''A''" by (simp add: anyKey_def)
  have full2: "\<forall>b \<in> set [replicate 1000 (sig ''a''), replicate 1000 (sig ''b'')]. length b = 1000"
    by simp
  have full1: "\<forall>b \<in> set [replicate 1000 (sig ''a'')]. length b = 1000"
    by simp
  have short200: "length (replicate 200 (sig ''c'')) < 1000" by simp
  have short0: "length ([] :: signature_info list) < 1000" by simp
  from getSignaturesForAddress_pagination [where validKey = anyKey and address = "''A''"
         and commitment_level = "''confirmed''" and rest = "[]" and t = "[]", OF key full2 short200]
       getSignaturesForAddress_pagination [where validKey = anyKey and address = "''A''"
         and commitment_level = "''confirmed''" and rest = "[]" and t = "[]", OF key full1 short0]
  show ?thesis by (simp add: sig_def)
qed

lemma getSignaturesForAddress_loop_terminates:
  "short_batch_within n connection publicKey commitment_level lastSignature (ext w) \<Longrightarrow>
   \<exists>all w'. getSignaturesForAddress_loop connection publicKey commitment_level signatures
               lastSignature w = Some (Inr all, w')"
proof (induction n arbitrary: signatures lastSignature w)
  case 0
  then show ?case by simp
next
  case (Suc n)
  obtain r c' where call: "rpc_getSignaturesForAddress connection publicKey
      \<lparr>before = lastSignature, limit = 1000, commitment = commitment_level\<rparr> (ext w) = (r, c')"
    by (cases "rpc_getSignaturesForAddress connection publicKey
      \<lparr>before = lastSignature, limit = 1000, commitment = commitment_level\<rparr> (ext w)") simp
  with Suc.prems obtain batch where r: "r = Inr batch"
    by (cases r) simp_all
  show ?case
  proof (cases "length batch = 1000")
    case True
    with Suc.prems call r
    have "short_batch_within n connection publicKey commitment_level
            (Some (signature (last batch))) (ext (w\<lparr>ext := c'\<rparr>))"
      by simp
    from Suc.IH [OF this, of "signatures @ batch"] call r True show ?thesis
      by (subst getSignaturesForAddress_loop.simps) (simp add: external_call_def)
  next
    case False
    with call r show ?thesis
      by (subst getSignaturesForAddress_loop.simps) (simp add: external_call_def)
  qed
qed

text \<open>
  C9. If the source, asked page after page, eventually (within some number n of calls)
  answers with a batch of fewer than 1000 records, the pagination loop ends and
  \<open>getSignaturesForAddress\<close> returns a list of signatures. An account with an exact
  multiple of 1000 transactions is such a source: its last page is empty.
\<close>

theorem getSignaturesForAddress_terminates:
  assumes "validKey address"
    and "short_batch_within n connection (PublicKey address) commitment_level None (ext w)"
  shows "\<exists>all w'. getSignaturesForAddress connection validKey address commitment_level w =
           Some (Inr all, w')"
proof -
  from getSignaturesForAddress_loop_terminates [OF assms(2), of "[]"]
  obtain all w' where
    "getSignaturesForAddress_loop connection (PublicKey address) commitment_level [] None w =
       Some (Inr all, w')"
    by blast
  then have "getSignaturesForAddress connection validKey address commitment_level w =
       Some (Inr all, w')"
    unfolding getSignaturesForAddress_def
    by (intro withRetry_default_success) (simp add: new_PublicKey_def assms(1))
  then show ?thesis by blast
qed

theorem getSignaturesForAddress_terminates_witness:
  "anyKey ''A''
   \<and> short_batch_within 2 scripted_connection (PublicKey ''A'') ''confirmed'' None
       \<lparr>responses = [replicate 1000 (sig ''a''), []], requests = []\<rparr>
   \<and> (\<exists>all w'. getSignaturesForAddress scripted_connection anyKey ''A'' ''confirmed''
         \<lparr>ext = \<lparr>responses = [replicate 1000 (sig ''a''), []], requests = []\<rparr>, trace = []\<rparr> =
         Some (Inr all, w'))"
proof -
  have key: "anyKey ''A''" by (simp add: anyKey_def)
  have short: "short_batch_within 2 scripted_connection (PublicKey ''A'') ''confirmed'' None
       (ext \<lparr>ext = \<lparr>responses = [replicate 1000 (sig ''a''), []], requests = []\<rparr>, trace = []\<rparr>)"
    by (simp add: numeral_2_eq_2 scripted_connection_def scripted_getSignaturesForAddress_def)
  from getSignaturesForAddress_terminates [where validKey = anyKey and address = "''A''",
         OF key short] key short show ?thesis by simp
qed

section \<open>Properties of the address loader\<close>

lemma set_foldl_Set_add: "set (foldl Set_add addresses xs) = set addresses \<union> set xs"
  by (induction xs arbitrary: addresses) (auto simp add: Set_add_def)

lemma distinct_foldl_Set_add: "distinct addresses \<Longrightarrow> distinct (foldl Set_add addresses xs)"
  by (induction xs arbitrary: addresses) (auto simp add: Set_add_def)

lemma readAddresses_lines_members:
  "fst (readAddresses_lines validKey lines addresses w) =
     foldl Set_add addresses (filter validKey (map trim lines))"
  by (induction lines arbitrary: addresses w)
     (auto simp add: isValidSolanaAddress_def new_PublicKey_def Let_def)

text \<open>
  C7. When the file can be read, \<open>readAddressesFromFile\<close> returns a list without
  repetitions whose members are exactly the trimmed lines that the key library accepts:
  every valid line once, no invalid line, and an invalid line does not end the load.
\<close>

theorem readAddressesFromFile_valid_lines_once:
  assumes "readFile filePath (ext w) = (Inr contents, c')"
  shows "\<exists>addresses w'.
           readAddressesFromFile readFile validKey filePath w = Some (Inr addresses, w')
         \<and> distinct addresses
         \<and> set addresses = {a \<in> trim ` set (split CHR 0x0A (trim contents)). validKey a}"
proof -
  let ?lines = "split CHR 0x0A (trim contents)"
  obtain addresses w2
    where run: "readAddresses_lines validKey ?lines [] (w\<lparr>ext := c'\<rparr>) = (addresses, w2)"
    by (cases "readAddresses_lines validKey ?lines [] (w\<lparr>ext := c'\<rparr>)") simp
  then have members: "addresses = foldl Set_add [] (filter validKey (map trim ?lines))"
    using readAddresses_lines_members [of validKey ?lines "[]" "w\<lparr>ext := c'\<rparr>"] by simp
  have "readAddressesFromFile readFile validKey filePath w = Some (Inr addresses, w2)"
    unfolding readAddressesFromFile_def
    by (rule withRetry_default_success) (simp add: external_call_def assms run)
  moreover have "distinct addresses"
    using members by (simp add: distinct_foldl_Set_add)
  moreover have "set addresses = {a \<in> trim ` set ?lines. validKey a}"
    using members by (auto simp add: set_foldl_Set_add)
  ultimately show ?thesis by blast
qed

theorem readAddressesFromFile_valid_lines_once_witness:
  "(\<exists>addresses w'.
      readAddressesFromFile (file_with ''A\<newline>A\<newline>B'') keysAB ''./addresses.txt''
        \<lparr>ext = (), trace = []\<rparr> = Some (Inr addresses, w')
      \<and> length addresses = 2 \<and> set addresses = {''A'', ''B''})
   \<and> (\<exists>addresses w'.
      readAddressesFromFile (file_with ''A\<newline>not-an-address\<newline>B'') keysAB ''./addresses.txt''
        \<lparr>ext = (), trace = []\<rparr> = Some (Inr addresses, w')
      \<and> length addresses = 2 \<and> set addresses = {''A'', ''B''})"
proof -
  have members1:
    "{a \<in> trim ` set (split CHR 0x0A (trim ''A\<newline>A\<newline>B'')). keysAB a} = {''A'', ''B''}"
    by (auto simp add: trim_def isWhiteSpace_def keysAB_def)
  have members2:
    "{a \<in> trim ` set (split CHR 0x0A (trim ''A\<newline>not-an-address\<newline>B'')). keysAB a} =
       {''A'', ''B''}"
    by (auto simp add: trim_def isWhiteSpace_def keysAB_def)
  have two: "\<And>addresses. distinct addresses \<Longrightarrow> set addresses = {''A'', ''B''} \<Longrightarrow>
      length addresses = 2"
    using distinct_card by fastforce
  have read1: "file_with ''A\<newline>A\<newline>B'' ''./addresses.txt''
      (ext \<lparr>ext = (), trace = []\<rparr>) = (Inr ''A\<newline>A\<newline>B'', ())"
    by (simp add: file_with_def)
  have read2: "file_with ''A\<newline>not-an-address\<newline>B'' ''./addresses.txt''
      (ext \<lparr>ext = (), trace = []\<rparr>) = (Inr ''A\<newline>not-an-address\<newline>B'', ())"
    by (simp add: file_with_def)
  from readAddressesFromFile_valid_lines_once
         [where readFile = "file_with ''A\<newline>A\<newline>B''" and filePath = "''./addresses.txt''"
            and w = "\<lparr>ext = (), trace = []\<rparr>" and validKey = keysAB, OF read1]
       readAddressesFromFile_valid_lines_once
         [where readFile = "file_with ''A\<newline>not-an-address\<newline>B''"
            and filePath = "''./addresses.txt''"
            and w = "\<lparr>ext = (), trace = []\<rparr>" and validKey = keysAB, OF read2]
  show ?thesis
    unfolding members1 members2 using two by metis
qed

section \<open>Properties of the stake account scan\<close>

lemma withRetry_loop_calls:
  assumes op: "\<forall>w. \<exists>r w1. operation w = Some (r, w1) \<and> log (ext w1) = log (ext w) @ [x]"
  shows "attempt \<le> maxAttempts \<Longrightarrow>
         \<exists>r w' k. withRetry_loop operation maxAttempts attempt delay lastError w = Some (r, w')
           \<and> 1 \<le> k \<and> int k \<le> maxAttempts + 1 - attempt
           \<and> log (ext w') = log (ext w) @ replicate k x"
proof (induction n \<equiv> "nat (maxAttempts - attempt)" arbitrary: attempt delay lastError w)
  case 0
  then have eq: "attempt = maxAttempts" by simp
  from op obtain r1 w1 where call: "operation w = Some (r1, w1)"
    and log1: "log (ext w1) = log (ext w) @ [x]"
    by blast
  have "\<exists>r w'. withRetry_loop operation maxAttempts maxAttempts delay lastError w = Some (r, w')
          \<and> log (ext w') = log (ext w) @ [x]"
  proof (cases r1)
    case (Inr v)
    with call log1 show ?thesis by (simp add: withRetry_loop_success)
  next
    case (Inl e)
    with call log1 show ?thesis
      by (cases e)
         (simp_all add: withRetry_loop_failure_undefined withRetry_loop_failure_last emit_def)
  qed
  then obtain r w' where
    "withRetry_loop operation maxAttempts attempt delay lastError w = Some (r, w')"
    "log (ext w') = log (ext w) @ replicate 1 x"
    unfolding eq by auto
  moreover have "(1::nat) \<le> 1" "int 1 \<le> maxAttempts + 1 - attempt" using eq by simp_all
  ultimately show ?case by blast
next
  case (Suc n)
  then have less: "attempt < maxAttempts" by simp
  from op obtain r1 w1 where call: "operation w = Some (r1, w1)"
    and log1: "log (ext w1) = log (ext w) @ [x]"
    by blast
  have one: "\<exists>r w'. withRetry_loop operation maxAttempts attempt delay lastError w = Some (r, w')
        \<and> log (ext w') = log (ext w) @ replicate 1 x \<Longrightarrow> ?case"
  proof -
    assume "\<exists>r w'. withRetry_loop operation maxAttempts attempt delay lastError w = Some (r, w')
        \<and> log (ext w') = log (ext w) @ replicate 1 x"
    then obtain r w' where
      "withRetry_loop operation maxAttempts attempt delay lastError w = Some (r, w')"
      "log (ext w') = log (ext w) @ replicate 1 x"
      by blast
    moreover have "(1::nat) \<le> 1" "int 1 \<le> maxAttempts + 1 - attempt" using less by simp_all
    ultimately show ?case by blast
  qed
  show ?case
  proof (cases r1)
    case (Inr v)
    with call log1 less show ?thesis by (intro one) (simp add: withRetry_loop_success)
  next
    case (Inl e)
    show ?thesis
    proof (cases e)
      case Undefined
      with Inl call log1 less show ?thesis
        by (intro one) (simp add: withRetry_loop_failure_undefined)
    next
      case (Error m)
      let ?w2 = "emit (Sleep delay) (emit (WaitingBeforeRetry delay)
                   (emit (AttemptFailed attempt maxAttempts (Error m)) w1))"
      have n: "n = nat (maxAttempts - (attempt + 1))" using Suc.hyps(2) by simp
      have le: "attempt + 1 \<le> maxAttempts" using less by simp
      from Suc.hyps(1) [OF n le, of "delay * 2" "Error m" ?w2]
      obtain r w' k where again:
        "withRetry_loop operation maxAttempts (attempt + 1) (delay * 2) (Error m) ?w2 = Some (r, w')"
        "1 \<le> k" "int k \<le> maxAttempts + 1 - (attempt + 1)"
        "log (ext w') = log (ext ?w2) @ replicate k x"
        by blast
      have "withRetry_loop operation maxAttempts attempt delay lastError w = Some (r, w')"
        using again(1) call Inl Error less by (simp add: withRetry_loop_failure_retry)
      moreover have "log (ext w') = log (ext w) @ replicate (Suc k) x"
        using again(4) log1 by (simp add: emit_def)
      moreover have "1 \<le> Suc k" "int (Suc k) \<le> maxAttempts + 1 - attempt"
        using again(3) by simp_all
      ultimately show ?thesis by blast
    qed
  qed
qed

lemma index_getStakeAccountsForAddress_loop_end:
  "\<not> attempt < maxAttempts \<Longrightarrow>
   index_getStakeAccountsForAddress_loop connection address maxAttempts delay attempt
     stakeAccounts w = Some (Inr stakeAccounts, w)"
  by (subst index_getStakeAccountsForAddress_loop.simps) simp

text \<open>
  C8. Whatever the connection answers, every account scan that \<open>getStakeAccountsForAddress\<close>
  makes (at least one, at most \<open>maxAttempts = 3\<close> of them) is a scan of the stake program with
  exactly the two filters \<open>dataSize: 200\<close> and \<open>memcmp\<close> of the address at offset 44.
  When the scan answers with no account, the empty result is returned after that one scan,
  without a wait and without a failed attempt. The variant of \<open>index.js\<close>, with its default
  \<open>maxAttempts = 1\<close>, makes exactly one scan, with the same two filters, and returns what
  the scan answers, empty or not, without a wait.
\<close>

theorem getStakeAccountsForAddress_scan:
  "(\<exists>r w' k. getStakeAccountsForAddress (recording connection) address 3 1000 w = Some (r, w')
       \<and> 1 \<le> k \<and> k \<le> 3
       \<and> scans (ext w') = scans (ext w) @
            replicate k (StakeProgram_programId, [DataSize 200, Memcmp 44 address]))
   \<and> (rpc_getProgramAccounts connection StakeProgram_programId
         [DataSize 200, Memcmp 44 address] (inner (ext w)) = (Inr [], c') \<longrightarrow>
       getStakeAccountsForAddress (recording connection) address 3 1000 w =
         Some (Inr [],
           \<lparr>ext = \<lparr>inner = c', scans = scans (ext w) @
                     [(StakeProgram_programId, [DataSize 200, Memcmp 44 address])]\<rparr>,
            trace = trace w @ [FoundStakeAccounts 0]\<rparr>))
   \<and> index_getStakeAccountsForAddress (recording connection) address 1 1000 w =
       (case rpc_getProgramAccounts connection StakeProgram_programId
               [DataSize 200, Memcmp 44 address] (inner (ext w)) of
          (Inl e, c1) \<Rightarrow>
            Some (Inl e,
              \<lparr>ext = \<lparr>inner = c1, scans = scans (ext w) @
                        [(StakeProgram_programId, [DataSize 200, Memcmp 44 address])]\<rparr>,
               trace = trace w\<rparr>)
        | (Inr stakeAccounts, c1) \<Rightarrow>
            Some (Inr stakeAccounts,
              \<lparr>ext = \<lparr>inner = c1, scans = scans (ext w) @
                        [(StakeProgram_programId, [DataSize 200, Memcmp 44 address])]\<rparr>,
               trace = trace w @
                 (if stakeAccounts = [] then []
                  else [FoundStakeAccounts (length stakeAccounts)])\<rparr>))"
proof (intro conjI)
  let ?scan = "(StakeProgram_programId, [DataSize 200, Memcmp 44 address])"
  let ?op = "\<lambda>w. case external_call
                  (rpc_getProgramAccounts (recording connection) StakeProgram_programId
                     [DataSize 200, Memcmp 44 address]) w of
               None \<Rightarrow> None
             | Some (Inl e, w1) \<Rightarrow> Some (Inl e, w1)
             | Some (Inr stakeAccounts, w1) \<Rightarrow>
                 Some (Inr stakeAccounts, emit (FoundStakeAccounts (length stakeAccounts)) w1)"
  have op: "\<forall>w. \<exists>r w1. ?op w = Some (r, w1) \<and> scans (ext w1) = scans (ext w) @ [?scan]"
    by (auto simp add: external_call_def recording_def emit_def split: prod.splits sum.splits)
  from withRetry_loop_calls [of ?op scans ?scan 1 3 1000 Undefined w, OF op]
  obtain r w' k where "withRetry_loop ?op 3 1 1000 Undefined w = Some (r, w')"
    "1 \<le> k" "int k \<le> 3" "scans (ext w') = scans (ext w) @ replicate k ?scan"
    by auto
  then show "\<exists>r w' k. getStakeAccountsForAddress (recording connection) address 3 1000 w = Some (r, w')
       \<and> 1 \<le> k \<and> k \<le> 3 \<and> scans (ext w') = scans (ext w) @ replicate k ?scan"
    unfolding getStakeAccountsForAddress_def withRetry_def
    by (intro exI [of _ r] exI [of _ w'] exI [of _ k]) simp
next
  show "rpc_getProgramAccounts connection StakeProgram_programId
         [DataSize 200, Memcmp 44 address] (inner (ext w)) = (Inr [], c') \<longrightarrow>
       getStakeAccountsForAddress (recording connection) address 3 1000 w =
         Some (Inr [],
           \<lparr>ext = \<lparr>inner = c', scans = scans (ext w) @
                     [(StakeProgram_programId, [DataSize 200, Memcmp 44 address])]\<rparr>,
            trace = trace w @ [FoundStakeAccounts 0]\<rparr>)"
    unfolding getStakeAccountsForAddress_def withRetry_def
    by (auto intro!: withRetry_loop_success simp add: external_call_def recording_def emit_def)
next
  show "index_getStakeAccountsForAddress (recording connection) address 1 1000 w =
       (case rpc_getProgramAccounts connection StakeProgram_programId
               [DataSize 200, Memcmp 44 address] (inner (ext w)) of
          (Inl e, c1) \<Rightarrow>
            Some (Inl e,
              \<lparr>ext = \<lparr>inner = c1, scans = scans (ext w) @
                        [(StakeProgram_programId, [DataSize 200, Memcmp 44 address])]\<rparr>,
               trace = trace w\<rparr>)
        | (Inr stakeAccounts, c1) \<Rightarrow>
            Some (Inr stakeAccounts,
              \<lparr>ext = \<lparr>inner = c1, scans = scans (ext w) @
                        [(StakeProgram_programId, [DataSize 200, Memcmp 44 address])]\<rparr>,
               trace = trace w @
                 (if stakeAccounts = [] then []
                  else [FoundStakeAccounts (length stakeAccounts)])\<rparr>))"
    unfolding index_getStakeAccountsForAddress_def
    by (subst index_getStakeAccountsForAddress_loop.simps)
       (simp add: external_call_def recording_def emit_def isArrayNotEmpty_def
          index_getStakeAccountsForAddress_loop_end split: prod.splits sum.splits)
qed

theorem getStakeAccountsForAddress_scan_witness:
  "getStakeAccountsForAddress (recording no_stake_accounts) ''A'' 3 1000
     \<lparr>ext = \<lparr>inner = (), scans = []\<rparr>, trace = []\<rparr> =
   Some (Inr [],
     \<lparr>ext = \<lparr>inner = (), scans = [(StakeProgram_programId, [DataSize 200, Memcmp 44 ''A''])]\<rparr>,
      trace = [FoundStakeAccounts 0]\<rparr>)
   \<and> index_getStakeAccountsForAddress (recording no_stake_accounts) ''A'' 1 1000
     \<lparr>ext = \<lparr>inner = (), scans = []\<rparr>, trace = []\<rparr> =
   Some (Inr [],
     \<lparr>ext = \<lparr>inner = (), scans = [(StakeProgram_programId, [DataSize 200, Memcmp 44 ''A''])]\<rparr>,
      trace = []\<rparr>)"
  using getStakeAccountsForAddress_scan [of no_stake_accounts "''A''"
          "\<lparr>ext = \<lparr>inner = (), scans = []\<rparr>, trace = []\<rparr>" "()"]
  by (simp add: no_stake_accounts_def)

section \<open>The program on a ledger with fixed contents\<close>

lemma withRetry_loop_always_fails:
  assumes op: "\<forall>w. \<exists>w1. operation w = Some (Inl (Error m), w1)"
  shows "attempt \<le> maxAttempts \<Longrightarrow>
         \<exists>w'. withRetry_loop operation maxAttempts attempt delay lastError w =
                 Some (Inl (Error m), w')"
proof (induction n \<equiv> "nat (maxAttempts - attempt)" arbitrary: attempt delay lastError w)
  case 0
  then have eq: "attempt = maxAttempts" by simp
  from op obtain w1 where "operation w = Some (Inl (Error m), w1)" by blast
  then show ?case unfolding eq by (simp add: withRetry_loop_failure_last)
next
  case (Suc n)
  then have less: "attempt < maxAttempts" by simp
  from op obtain w1 where call: "operation w = Some (Inl (Error m), w1)" by blast
  have n: "n = nat (maxAttempts - (attempt + 1))" using Suc.hyps(2) by simp
  have le: "attempt + 1 \<le> maxAttempts" using less by simp
  from Suc.hyps(1) [OF n le] show ?case
    using call less by (simp add: withRetry_loop_failure_retry)
qed

lemma withRetry_default_always_fails:
  "\<forall>w. \<exists>w1. operation w = Some (Inl (Error m), w1) \<Longrightarrow>
   \<exists>w'. withRetry_default operation w = Some (Inl (Error m), w')"
  unfolding withRetry_default_def withRetry_def
  by (rule withRetry_loop_always_fails) simp_all

lemma page_first: "page history None n = take n history"
  by (simp add: page_def)

lemma page_after:
  assumes "distinct (map signature (older @ rest))" and "older \<noteq> []"
  shows "page (older @ rest) (Some (signature (last older))) n = take n rest"
proof -
  from assms(2) obtain ps p where older: "older = ps @ [p]"
    by (cases older rule: rev_cases) simp_all
  with assms(1) have "\<forall>x \<in> set ps. signature x \<noteq> signature p"
    by (fastforce simp add: image_iff)
  then have "dropWhile (\<lambda>x. signature x \<noteq> signature p) (ps @ p # rest) = p # rest"
    by (simp add: dropWhile_append2)
  then show ?thesis by (simp add: page_def older)
qed

lemma ledger_loop:
  assumes d: "distinct (map signature (history_of L (toBase58 publicKey)))"
    and serves: "\<forall>options c. rpc_getSignaturesForAddress connection publicKey options c =
        (Inr (page (history_of L (toBase58 publicKey)) (before options) (limit options)), c)"
  shows "history_of L (toBase58 publicKey) = older @ rest \<Longrightarrow>
         lastSignature = (if older = [] then None else Some (signature (last older))) \<Longrightarrow>
         getSignaturesForAddress_loop connection publicKey
           commitment_level signatures lastSignature w = Some (Inr (signatures @ rest), w)"
proof (induction "length rest" arbitrary: older rest signatures lastSignature rule: less_induct)
  case less
  have pg: "page (history_of L (toBase58 publicKey)) lastSignature 1000 = take 1000 rest"
  proof (cases "older = []")
    case True
    with less.prems show ?thesis by (simp add: page_first)
  next
    case False
    with less.prems d show ?thesis by (simp add: page_after)
  qed
  have call: "external_call
       (rpc_getSignaturesForAddress connection publicKey
          \<lparr>before = lastSignature, limit = 1000, commitment = commitment_level\<rparr>) w =
       Some (Inr (take 1000 rest), w)"
    by (simp add: external_call_def serves pg)
  show ?case
  proof (cases "length rest \<ge> 1000")
    case True
    let ?batch = "take 1000 rest"
    have len: "length ?batch = 1000" using True by simp
    then have ne: "?batch \<noteq> []" by auto
    have smaller: "length (drop 1000 rest) < length rest" using True by simp
    have split: "history_of L (toBase58 publicKey) = (older @ ?batch) @ drop 1000 rest"
      using less.prems(1) by simp
    have cursor: "Some (signature (last ?batch)) =
        (if older @ ?batch = [] then None else Some (signature (last (older @ ?batch))))"
      using ne by simp
    from less.hyps [OF smaller split cursor, of "signatures @ ?batch"]
    show ?thesis
      by (subst getSignaturesForAddress_loop.simps) (simp add: call len del: take_eq_Nil)
  next
    case False
    then show ?thesis
      by (subst getSignaturesForAddress_loop.simps) (simp add: call)
  qed
qed

lemma getSignaturesForAddress_served:
  assumes "distinct (map signature (history_of L address))"
    and "validKey address"
    and "\<forall>options c. rpc_getSignaturesForAddress connection (PublicKey address) options c =
        (Inr (page (history_of L address) (before options) (limit options)), c)"
  shows "getSignaturesForAddress connection validKey address commitment_level w =
           Some (Inr (history_of L address), w)"
proof -
  from assms
  have d: "distinct (map signature (history_of L (toBase58 (PublicKey address))))"
    and serves: "\<forall>options c. rpc_getSignaturesForAddress connection (PublicKey address) options c =
        (Inr (page (history_of L (toBase58 (PublicKey address))) (before options)
                (limit options)), c)"
    and h: "history_of L (toBase58 (PublicKey address)) = [] @ history_of L address"
    by simp_all
  have c: "None = (if ([] :: signature_info list) = [] then None else Some (signature (last [])))"
    by simp
  have "getSignaturesForAddress_loop connection (PublicKey address) commitment_level [] None w =
          Some (Inr (history_of L address), w)"
    using ledger_loop [where L = L and publicKey = "PublicKey address"
        and connection = connection and older = "[]" and rest = "history_of L address"
        and lastSignature = None and commitment_level = commitment_level
        and signatures = "[]" and w = w, OF d serves h c]
    by simp
  then show ?thesis
    unfolding getSignaturesForAddress_def
    by (intro withRetry_default_success) (simp add: new_PublicKey_def assms(2))
qed

lemma getSignaturesForAddress_ledger:
  assumes "distinct (map signature (history_of L address))"
    and "fetchable validKey historyFails address"
  shows "getSignaturesForAddress (faulty_connection L lookupFails historyFails) validKey address
           commitment_level w = Some (Inr (history_of L address), w)"
proof -
  from assms(2) have key: "validKey address" and ok: "\<not> historyFails address"
    by (simp_all add: fetchable_def)
  show ?thesis
    by (rule getSignaturesForAddress_served [where validKey = validKey and address = address
          and L = L, OF assms(1) key])
       (simp add: faulty_connection_def ok)
qed

lemma getSignaturesForAddress_unfetchable:
  assumes "\<not> fetchable validKey historyFails address"
  shows "\<exists>m w'. getSignaturesForAddress (faulty_connection L lookupFails historyFails) validKey
           address commitment_level w = Some (Inl (Error m), w')"
proof (cases "validKey address")
  case False
  then have "\<exists>w'. getSignaturesForAddress (faulty_connection L lookupFails historyFails) validKey
           address commitment_level w = Some (Inl (Error ''Invalid public key input''), w')"
    unfolding getSignaturesForAddress_def
    by (intro withRetry_default_always_fails) (simp add: new_PublicKey_def)
  then show ?thesis by blast
next
  case True
  with assms have fails: "historyFails address" by (simp add: fetchable_def)
  have "\<exists>w'. getSignaturesForAddress (faulty_connection L lookupFails historyFails) validKey
           address commitment_level w = Some (Inl (Error ''history failed''), w')"
    unfolding getSignaturesForAddress_def
    by (intro withRetry_default_always_fails)
       (simp add: new_PublicKey_def True fails faulty_connection_def external_call_def
          getSignaturesForAddress_loop.simps)
  then show ?thesis by blast
qed

lemma getStakeAccountsForAddress_ledger:
  "getStakeAccountsForAddress (faulty_connection L lookupFails historyFails) address 3 1000 w =
     Some (Inr (programAccounts_of L StakeProgram_programId [DataSize 200, Memcmp 44 address]),
       emit (FoundStakeAccounts (length (associatedStakeAccounts_of L address))) w)"
  unfolding getStakeAccountsForAddress_def withRetry_def
  by (rule withRetry_loop_success)
     (simp_all add: external_call_def faulty_connection_def associatedStakeAccounts_of_def)

lemma hasStakeAccount_ledger:
  "hasStakeAccount (faulty_connection L lookupFails historyFails) address w =
     Some (Inr (hasAssociatedStakeAccounts L address),
       emit (FoundStakeAccounts (length (associatedStakeAccounts_of L address))) w)"
  by (simp add: hasStakeAccount_def getStakeAccountsForAddress_ledger isArrayNotEmpty_def
        hasAssociatedStakeAccounts_def associatedStakeAccounts_of_def)

lemma getAssociatedStakeAccounts_ledger:
  "getAssociatedStakeAccounts (faulty_connection L lookupFails historyFails) address w =
     Some (Inr (associatedStakeAccounts_of L address),
       emit (FoundAssociatedStakeAccounts (length (associatedStakeAccounts_of L address)))
         (emit (FoundStakeAccounts (length (associatedStakeAccounts_of L address))) w))"
  unfolding getAssociatedStakeAccounts_def
  by (rule withRetry_default_success)
     (simp add: getStakeAccountsForAddress_ledger associatedStakeAccounts_of_def Let_def)

lemma lookup_ledger:
  assumes "validKey address" and "\<not> lookupFails address"
  shows "withRetry_default
           (\<lambda>w. case new_PublicKey validKey address of
                   Inl e \<Rightarrow> Some (Inl e, w)
                 | Inr publicKey \<Rightarrow>
                     external_call
                       (rpc_getParsedAccountInfo (faulty_connection L lookupFails historyFails)
                          publicKey) w) w =
         Some (Inr (accountInfo_of L address), w)"
  by (rule withRetry_default_success)
     (simp add: new_PublicKey_def assms external_call_def faulty_connection_def)

lemma lookup_ledger_fails:
  assumes "\<not> (validKey address \<and> \<not> lookupFails address)"
  shows "\<exists>m w'. withRetry_default
           (\<lambda>w. case new_PublicKey validKey address of
                   Inl e \<Rightarrow> Some (Inl e, w)
                 | Inr publicKey \<Rightarrow>
                     external_call
                       (rpc_getParsedAccountInfo (faulty_connection L lookupFails historyFails)
                          publicKey) w) (w :: 'c world) =
         Some (Inl (Error m), w')"
proof -
  let ?op = "\<lambda>w :: 'c world. case new_PublicKey validKey address of
                   Inl e \<Rightarrow> Some (Inl e, w)
                 | Inr publicKey \<Rightarrow>
                     external_call
                       (rpc_getParsedAccountInfo (faulty_connection L lookupFails historyFails)
                          publicKey) w"
  have "\<exists>m. \<forall>w. \<exists>w1. ?op w = Some (Inl (Error m), w1)"
  proof (cases "validKey address")
    case False
    then show ?thesis by (simp add: new_PublicKey_def)
  next
    case True
    with assms have "lookupFails address" by simp
    with True show ?thesis
      by (simp add: new_PublicKey_def external_call_def faulty_connection_def)
  qed
  then obtain m where "\<forall>w. \<exists>w1. ?op w = Some (Inl (Error m), w1)" by blast
  from withRetry_default_always_fails [OF this, of w] show ?thesis by (rule exI)
qed

text \<open>The lines logged for the associated stake accounts of an authority.\<close>

lemma associatedStakeAccounts_loop_ledger:
  assumes "\<forall>a. distinct (map signature (history_of L a))"
  shows "list_all (fetchable validKey historyFails) stakeAccounts \<Longrightarrow>
         associatedStakeAccounts_loop (faulty_connection L lookupFails historyFails) validKey
           stakeAccounts totalTransactions w =
         Some (Inr (), totalTransactions + sum_list (map (signatureCount L) stakeAccounts),
           w\<lparr>trace := trace w @
               concat (map (\<lambda>s. [ProcessingAssociatedStakeAccount s,
                                  TotalForAssociatedStakeAccount (signatureCount L s)]) stakeAccounts) @
               [AccumulatingTotal (totalTransactions + sum_list (map (signatureCount L) stakeAccounts)),
                Separator]\<rparr>)"
proof (induction stakeAccounts arbitrary: totalTransactions w)
  case Nil
  then show ?case by (simp add: endOfTry_def emit_def)
next
  case (Cons s rest)
  then have s: "fetchable validKey historyFails s"
    and rest: "list_all (fetchable validKey historyFails) rest"
    by simp_all
  have d: "distinct (map signature (history_of L s))" using assms by simp
  show ?case
    by (simp add: getSignaturesForAddress_ledger [OF d s] Cons.IH [OF rest] emit_def
          signatureCount_def add.assoc)
qed

lemma associatedStakeAccounts_loop_ledger_fails:
  assumes "\<forall>a. distinct (map signature (history_of L a))"
  shows "\<not> list_all (fetchable validKey historyFails) stakeAccounts \<Longrightarrow>
         \<exists>e w'. associatedStakeAccounts_loop (faulty_connection L lookupFails historyFails) validKey
           stakeAccounts totalTransactions w =
         Some (Inl e, totalTransactions + sum_list (map (signatureCount L)
                 (takeWhile (fetchable validKey historyFails) stakeAccounts)), w')"
proof (induction stakeAccounts arbitrary: totalTransactions w)
  case Nil
  then show ?case by simp
next
  case (Cons s rest)
  show ?case
  proof (cases "fetchable validKey historyFails s")
    case False
    from getSignaturesForAddress_unfetchable [OF False, of L lookupFails "''confirmed''"
           "emit (ProcessingAssociatedStakeAccount s) w"]
    obtain m w' where "getSignaturesForAddress (faulty_connection L lookupFails historyFails)
        validKey s ''confirmed'' (emit (ProcessingAssociatedStakeAccount s) w) =
        Some (Inl (Error m), w')"
      by blast
    with False show ?thesis by simp
  next
    case True
    then have s: "fetchable validKey historyFails s" .
    have d: "distinct (map signature (history_of L s))" using assms by simp
    from True Cons.prems have rest: "\<not> list_all (fetchable validKey historyFails) rest" by simp
    from Cons.IH [OF rest, of "totalTransactions + length (history_of L s)"] True show ?thesis
      by (simp add: getSignaturesForAddress_ledger [OF d s] signatureCount_def add.assoc)
  qed
qed

lemma stakeAccountBranch_ledger:
  assumes "\<forall>a. distinct (map signature (history_of L a))"
    and "fetchable validKey historyFails address"
  shows "stakeAccountBranch (faulty_connection L lookupFails historyFails) validKey address
           totalTransactions w =
         Some (Inr (), totalTransactions + signatureCount L address,
           w\<lparr>trace := trace w @
               [AddressIsStakeAccount, TotalForStakeAccount (signatureCount L address),
                AccumulatingTotal (totalTransactions + signatureCount L address), Separator]\<rparr>)"
proof -
  have d: "distinct (map signature (history_of L address))" using assms(1) by simp
  show ?thesis
    by (simp add: stakeAccountBranch_def getSignaturesForAddress_ledger [OF d assms(2)]
          endOfTry_def emit_def signatureCount_def)
qed

lemma stakeAccountBranch_ledger_fails:
  assumes "\<not> fetchable validKey historyFails address"
  shows "\<exists>e w'. stakeAccountBranch (faulty_connection L lookupFails historyFails) validKey address
           totalTransactions w = Some (Inl e, totalTransactions, w')"
proof -
  from getSignaturesForAddress_unfetchable [OF assms, of L lookupFails "''confirmed''"
         "emit AddressIsStakeAccount w"]
  obtain m w' where "getSignaturesForAddress (faulty_connection L lookupFails historyFails)
      validKey address ''confirmed'' (emit AddressIsStakeAccount w) = Some (Inl (Error m), w')"
    by blast
  then show ?thesis by (simp add: stakeAccountBranch_def)
qed

lemma normalAccountBranch_ledger:
  assumes "\<forall>a. distinct (map signature (history_of L a))"
    and "fetchable validKey historyFails address"
  shows "normalAccountBranch (faulty_connection L lookupFails historyFails) validKey address
           totalTransactions w =
         Some (Inr (), totalTransactions + signatureCount L address,
           w\<lparr>trace := trace w @
               [AddressIsNormalAccount, TotalForNormalAccount (signatureCount L address),
                AccumulatingTotal (totalTransactions + signatureCount L address), Separator]\<rparr>)"
proof -
  have d: "distinct (map signature (history_of L address))" using assms(1) by simp
  show ?thesis
    by (simp add: normalAccountBranch_def getSignaturesForAddress_ledger [OF d assms(2)]
          endOfTry_def emit_def signatureCount_def)
qed

lemma normalAccountBranch_ledger_fails:
  assumes "\<not> fetchable validKey historyFails address"
  shows "\<exists>e w'. normalAccountBranch (faulty_connection L lookupFails historyFails) validKey address
           totalTransactions w = Some (Inl e, totalTransactions, w')"
proof -
  from getSignaturesForAddress_unfetchable [OF assms, of L lookupFails "''confirmed''"
         "emit AddressIsNormalAccount w"]
  obtain m w' where "getSignaturesForAddress (faulty_connection L lookupFails historyFails)
      validKey address ''confirmed'' (emit AddressIsNormalAccount w) = Some (Inl (Error m), w')"
    by blast
  then show ?thesis by (simp add: normalAccountBranch_def)
qed

lemma mainAuthorityBranch_ledger:
  assumes "\<forall>a. distinct (map signature (history_of L a))"
    and "fetchable validKey historyFails address"
    and "list_all (fetchable validKey historyFails) (associatedStakeAccounts_of L address)"
  shows "mainAuthorityBranch (faulty_connection L lookupFails historyFails) validKey address
           totalTransactions w =
         Some (Inr (),
           totalTransactions + signatureCount L address +
             sum_list (map (signatureCount L) (associatedStakeAccounts_of L address)),
           w\<lparr>trace := trace w @
               [AddressIsMainAuthority, TotalForMainAuthority (signatureCount L address),
                FoundStakeAccounts (length (associatedStakeAccounts_of L address)),
                FoundAssociatedStakeAccounts (length (associatedStakeAccounts_of L address))] @
               concat (map (\<lambda>s. [ProcessingAssociatedStakeAccount s,
                                  TotalForAssociatedStakeAccount (signatureCount L s)])
                         (associatedStakeAccounts_of L address)) @
               [AccumulatingTotal (totalTransactions + signatureCount L address +
                  sum_list (map (signatureCount L) (associatedStakeAccounts_of L address))),
                Separator]\<rparr>)"
proof -
  have d: "distinct (map signature (history_of L address))" using assms(1) by simp
  show ?thesis
    by (simp add: mainAuthorityBranch_def getSignaturesForAddress_ledger [OF d assms(2)]
          getAssociatedStakeAccounts_ledger
          associatedStakeAccounts_loop_ledger [OF assms(1) assms(3)]
          emit_def signatureCount_def)
qed

lemma mainAuthorityBranch_ledger_fails:
  assumes "\<forall>a. distinct (map signature (history_of L a))"
    and "\<not> (fetchable validKey historyFails address \<and>
            list_all (fetchable validKey historyFails) (associatedStakeAccounts_of L address))"
  shows "\<exists>e w'. mainAuthorityBranch (faulty_connection L lookupFails historyFails) validKey address
           totalTransactions w =
         Some (Inl e,
           totalTransactions +
             (if fetchable validKey historyFails address
              then signatureCount L address +
                   sum_list (map (signatureCount L)
                     (takeWhile (fetchable validKey historyFails)
                        (associatedStakeAccounts_of L address)))
              else 0), w')"
proof (cases "fetchable validKey historyFails address")
  case False
  from getSignaturesForAddress_unfetchable [OF False, of L lookupFails "''confirmed''"
         "emit AddressIsMainAuthority w"]
  obtain m w' where "getSignaturesForAddress (faulty_connection L lookupFails historyFails)
      validKey address ''confirmed'' (emit AddressIsMainAuthority w) = Some (Inl (Error m), w')"
    by blast
  with False show ?thesis by (simp add: mainAuthorityBranch_def)
next
  case True
  with assms(2)
  have bad: "\<not> list_all (fetchable validKey historyFails) (associatedStakeAccounts_of L address)"
    by simp
  have d: "distinct (map signature (history_of L address))" using assms(1) by simp
  from associatedStakeAccounts_loop_ledger_fails [OF assms(1) bad,
         of lookupFails "totalTransactions + length (history_of L address)"] True
  show ?thesis
    by (simp add: mainAuthorityBranch_def getSignaturesForAddress_ledger [OF d True]
          getAssociatedStakeAccounts_ledger signatureCount_def add.assoc)
qed

lemma tryAddress_ledger:
  assumes "\<forall>a. distinct (map signature (history_of L a))"
    and "completes L validKey lookupFails historyFails address"
  shows "tryAddress (faulty_connection L lookupFails historyFails) validKey address
           totalTransactions w =
         Some (Inr (), totalTransactions + spec_count L address,
           w\<lparr>trace := trace w @ ProcessingAddress address #
             (if isStakeAccountItself L address then
                [AddressIsStakeAccount, TotalForStakeAccount (signatureCount L address)]
              else if hasAssociatedStakeAccounts L address then
                [FoundStakeAccounts (length (associatedStakeAccounts_of L address)),
                 AddressIsMainAuthority, TotalForMainAuthority (signatureCount L address),
                 FoundStakeAccounts (length (associatedStakeAccounts_of L address)),
                 FoundAssociatedStakeAccounts (length (associatedStakeAccounts_of L address))] @
                concat (map (\<lambda>s. [ProcessingAssociatedStakeAccount s,
                                   TotalForAssociatedStakeAccount (signatureCount L s)])
                          (associatedStakeAccounts_of L address))
              else
                [FoundStakeAccounts 0, FoundStakeAccounts 0, AddressIsNormalAccount,
                 TotalForNormalAccount (signatureCount L address)]) @
             [AccumulatingTotal (totalTransactions + spec_count L address), Separator]\<rparr>)"
proof -
  from assms(2) have key: "validKey address" "\<not> lookupFails address"
    and f: "fetchable validKey historyFails address"
    by (simp_all add: completes_def fetchable_def)
  note look = lookup_ledger [where validKey = validKey and address = address
      and lookupFails = lookupFails and L = L and historyFails = historyFails, OF key]
  show ?thesis
  proof (cases "isStakeAccountItself L address")
    case True
    then show ?thesis
      by (simp add: tryAddress_def look stakeAccountBranch_ledger [OF assms(1) f]
            isStakeAccountItself_def [symmetric] spec_count_def emit_def)
  next
    case notStake: False
    show ?thesis
    proof (cases "hasAssociatedStakeAccounts L address")
      case True
      with notStake assms(2)
      have all: "list_all (fetchable validKey historyFails) (associatedStakeAccounts_of L address)"
        by (simp add: completes_def)
      from True notStake show ?thesis
        by (simp add: tryAddress_def look hasStakeAccount_ledger
              mainAuthorityBranch_ledger [OF assms(1) f all]
              isStakeAccountItself_def [symmetric] spec_count_def emit_def)
    next
      case False
      then have none: "associatedStakeAccounts_of L address = []"
        by (simp add: hasAssociatedStakeAccounts_def)
      from False notStake show ?thesis
        by (simp add: tryAddress_def look hasStakeAccount_ledger
              normalAccountBranch_ledger [OF assms(1) f]
              isStakeAccountItself_def [symmetric] spec_count_def emit_def none)
    qed
  qed
qed

lemma faulty_count_completes:
  assumes "completes L validKey lookupFails historyFails address"
  shows "faulty_count L validKey lookupFails historyFails address = spec_count L address"
proof -
  from assms have ok: "validKey address" "\<not> lookupFails address" "\<not> historyFails address"
    and "isStakeAccountItself L address \<or> \<not> hasAssociatedStakeAccounts L address \<or>
       list_all (fetchable validKey historyFails) (associatedStakeAccounts_of L address)"
    by (simp_all add: completes_def)
  then have tw: "\<not> isStakeAccountItself L address \<and> hasAssociatedStakeAccounts L address \<Longrightarrow>
      takeWhile (fetchable validKey historyFails) (associatedStakeAccounts_of L address) =
        associatedStakeAccounts_of L address"
    by (auto simp add: list_all_iff)
  show ?thesis by (simp add: faulty_count_def spec_count_def ok tw)
qed

lemma tryAddress_ledger_fails:
  assumes "\<forall>a. distinct (map signature (history_of L a))"
    and "\<not> completes L validKey lookupFails historyFails address"
  shows "\<exists>e w'. tryAddress (faulty_connection L lookupFails historyFails) validKey address
           totalTransactions w =
         Some (Inl e, totalTransactions + faulty_count L validKey lookupFails historyFails address,
           w')"
proof (cases "validKey address \<and> \<not> lookupFails address")
  case False
  from lookup_ledger_fails [where validKey = validKey and address = address
      and lookupFails = lookupFails and L = L and historyFails = historyFails
      and w = "emit (ProcessingAddress address) w", OF False]
  obtain m w' where "withRetry_default
           (\<lambda>w. case new_PublicKey validKey address of
                   Inl e \<Rightarrow> Some (Inl e, w)
                 | Inr publicKey \<Rightarrow>
                     external_call
                       (rpc_getParsedAccountInfo (faulty_connection L lookupFails historyFails)
                          publicKey) w) (emit (ProcessingAddress address) w) =
         Some (Inl (Error m), w')"
    by blast
  with False show ?thesis by (auto simp add: tryAddress_def faulty_count_def)
next
  case True
  then have key: "validKey address" "\<not> lookupFails address" by simp_all
  note look = lookup_ledger [where validKey = validKey and address = address
      and lookupFails = lookupFails and L = L and historyFails = historyFails, OF key]
  show ?thesis
  proof (cases "isStakeAccountItself L address")
    case stake: True
    with assms(2) key have nf: "\<not> fetchable validKey historyFails address"
      by (simp add: completes_def fetchable_def)
    from stakeAccountBranch_ledger_fails [OF nf, of L lookupFails totalTransactions
           "emit (ProcessingAddress address) w"] stake nf key
    show ?thesis
      by (simp add: tryAddress_def look isStakeAccountItself_def [symmetric] faulty_count_def
            fetchable_def)
  next
    case notStake: False
    let ?w1 = "emit (FoundStakeAccounts (length (associatedStakeAccounts_of L address)))
                 (emit (ProcessingAddress address) w)"
    show ?thesis
    proof (cases "hasAssociatedStakeAccounts L address")
      case True
      with notStake assms(2) key
      have bad: "\<not> (fetchable validKey historyFails address \<and>
            list_all (fetchable validKey historyFails) (associatedStakeAccounts_of L address))"
        by (auto simp add: completes_def fetchable_def)
      from mainAuthorityBranch_ledger_fails [OF assms(1) bad, of lookupFails totalTransactions ?w1]
           True notStake key
      show ?thesis
        by (cases "historyFails address")
           (simp_all add: tryAddress_def look hasStakeAccount_ledger
              isStakeAccountItself_def [symmetric] faulty_count_def fetchable_def)
    next
      case False
      with notStake assms(2) key have nf: "\<not> fetchable validKey historyFails address"
        by (simp add: completes_def fetchable_def)
      let ?w2 = "emit (FoundStakeAccounts (length (associatedStakeAccounts_of L address))) ?w1"
      from normalAccountBranch_ledger_fails [OF nf, of L lookupFails totalTransactions ?w2]
           False notStake nf key
      show ?thesis
        by (simp add: tryAddress_def look hasStakeAccount_ledger
              isStakeAccountItself_def [symmetric] faulty_count_def fetchable_def)
    qed
  qed
qed

lemma getTotalTransactionCount_loop_ledger:
  assumes "\<forall>a. distinct (map signature (history_of L a))"
  shows "\<exists>w'. getTotalTransactionCount_loop (faulty_connection L lookupFails historyFails) validKey
           addresses totalTransactions w =
         Some (totalTransactions +
                 sum_list (map (faulty_count L validKey lookupFails historyFails) addresses), w')"
proof (induction addresses arbitrary: totalTransactions w)
  case Nil
  show ?case by simp
next
  case (Cons address rest)
  show ?case
  proof (cases "completes L validKey lookupFails historyFails address")
    case True
    from Cons.IH [of "totalTransactions + spec_count L address"] show ?thesis
      by (simp add: tryAddress_ledger [OF assms True] faulty_count_completes [OF True] add.assoc)
  next
    case False
    from tryAddress_ledger_fails [OF assms False, of totalTransactions w]
    obtain e w1 where "tryAddress (faulty_connection L lookupFails historyFails) validKey address
           totalTransactions w =
         Some (Inl e, totalTransactions + faulty_count L validKey lookupFails historyFails address,
           w1)"
      by blast
    with Cons.IH [of "totalTransactions + faulty_count L validKey lookupFails historyFails address"
           "emit (ErrorProcessingAddress address e) w1"]
    show ?thesis by (simp add: add.assoc)
  qed
qed


lemma fetchable_never: "fetchable validKey never = validKey"
  by (rule ext) (simp add: fetchable_def never_def)




lemma sample_ledger_distinct: "\<forall>a. distinct (map signature (history_of sample_ledger a))"
  by (simp add: sample_ledger_def sig_def)

lemma sample_ledger_stake_accounts:
  "associatedStakeAccounts_of sample_ledger ''A'' = [''S1'', ''S2'']"
  "associatedStakeAccounts_of sample_ledger ''X'' = [''S1'']"
  "associatedStakeAccounts_of sample_ledger ''S1'' = []"
  "associatedStakeAccounts_of sample_ledger ''S2'' = []"
  "associatedStakeAccounts_of sample_ledger ''N'' = []"
  "associatedStakeAccounts_of sample_ledger ''not-an-address'' = []"
  by (simp_all add: associatedStakeAccounts_of_def sample_ledger_def)

lemma sample_ledger_stake:
  "\<not> isStakeAccountItself sample_ledger ''A''"
  "isStakeAccountItself sample_ledger ''X''"
  "isStakeAccountItself sample_ledger ''S1''"
  "isStakeAccountItself sample_ledger ''S2''"
  "\<not> isStakeAccountItself sample_ledger ''N''"
  by (simp_all add: isStakeAccountItself_def sample_ledger_def program_of_def)

lemma sample_ledger_counts:
  "signatureCount sample_ledger ''A'' = 2"
  "signatureCount sample_ledger ''S1'' = 3"
  "signatureCount sample_ledger ''S2'' = 1"
  "signatureCount sample_ledger ''N'' = 4"
  "signatureCount sample_ledger ''X'' = 1"
  by (simp_all add: signatureCount_def sample_ledger_def)




section \<open>Classification and fault isolation\<close>

lemma completes_no_failures:
  assumes "validKey address"
    and "\<forall>s \<in> set (associatedStakeAccounts_of L address). validKey s"
  shows "completes L validKey never never address"
  using assms by (simp add: completes_def fetchable_never list_all_iff) (simp add: never_def)

text \<open>
  C2, amended. On a ledger with fixed contents the chain of \<open>if \<dots> else if\<close> classifies a
  valid address in this order of priority. An address that is a stake account itself is
  logged as a stake account and counted with its own signatures, whether or not it has
  associated stake accounts. Otherwise an address with associated stake accounts is logged
  as a main authority account and counted with its own signatures and those of its stake
  accounts. Otherwise it is logged as a normal account and counted with its own signatures.
  The branch that logs \<open>invalid address\<close> is not taken.
\<close>

theorem classification_decision_table:
  assumes "\<forall>a. distinct (map signature (history_of L a))"
    and "validKey address"
    and "\<forall>s \<in> set (associatedStakeAccounts_of L address). validKey s"
  shows "getTotalTransactionCount (ledger_connection L) validKey [address] w =
     Some
      (if isStakeAccountItself L address then
         (signatureCount L address,
          w\<lparr>trace := trace w @
             [ProcessingAddress address, AddressIsStakeAccount,
              TotalForStakeAccount (signatureCount L address),
              AccumulatingTotal (signatureCount L address), Separator]\<rparr>)
       else if hasAssociatedStakeAccounts L address then
         (signatureCount L address +
            sum_list (map (signatureCount L) (associatedStakeAccounts_of L address)),
          w\<lparr>trace := trace w @
             [ProcessingAddress address,
              FoundStakeAccounts (length (associatedStakeAccounts_of L address)),
              AddressIsMainAuthority, TotalForMainAuthority (signatureCount L address),
              FoundStakeAccounts (length (associatedStakeAccounts_of L address)),
              FoundAssociatedStakeAccounts (length (associatedStakeAccounts_of L address))] @
             concat (map (\<lambda>s. [ProcessingAssociatedStakeAccount s,
                                TotalForAssociatedStakeAccount (signatureCount L s)])
                       (associatedStakeAccounts_of L address)) @
             [AccumulatingTotal (signatureCount L address +
                sum_list (map (signatureCount L) (associatedStakeAccounts_of L address))),
              Separator]\<rparr>)
       else
         (signatureCount L address,
          w\<lparr>trace := trace w @
             [ProcessingAddress address, FoundStakeAccounts 0, FoundStakeAccounts 0,
              AddressIsNormalAccount, TotalForNormalAccount (signatureCount L address),
              AccumulatingTotal (signatureCount L address), Separator]\<rparr>))"
proof -
  note ok = completes_no_failures [OF assms(2) assms(3)]
  show ?thesis
    by (simp add: getTotalTransactionCount_def ledger_connection_def
          tryAddress_ledger [OF assms(1) ok] spec_count_def)
qed

theorem classification_decision_table_witness:
  "getTotalTransactionCount (ledger_connection sample_ledger) sample_keys [''S1'']
     \<lparr>ext = (), trace = []\<rparr> =
     Some (3, \<lparr>ext = (), trace =
       [ProcessingAddress ''S1'', AddressIsStakeAccount, TotalForStakeAccount 3,
        AccumulatingTotal 3, Separator]\<rparr>)
   \<and> getTotalTransactionCount (ledger_connection sample_ledger) sample_keys [''A'']
     \<lparr>ext = (), trace = []\<rparr> =
     Some (6, \<lparr>ext = (), trace =
       [ProcessingAddress ''A'', FoundStakeAccounts 2, AddressIsMainAuthority,
        TotalForMainAuthority 2, FoundStakeAccounts 2, FoundAssociatedStakeAccounts 2,
        ProcessingAssociatedStakeAccount ''S1'', TotalForAssociatedStakeAccount 3,
        ProcessingAssociatedStakeAccount ''S2'', TotalForAssociatedStakeAccount 1,
        AccumulatingTotal 6, Separator]\<rparr>)
   \<and> getTotalTransactionCount (ledger_connection sample_ledger) sample_keys [''N'']
     \<lparr>ext = (), trace = []\<rparr> =
     Some (4, \<lparr>ext = (), trace =
       [ProcessingAddress ''N'', FoundStakeAccounts 0, FoundStakeAccounts 0,
        AddressIsNormalAccount, TotalForNormalAccount 4, AccumulatingTotal 4, Separator]\<rparr>)"
proof -
  have k: "sample_keys ''S1''" "sample_keys ''A''" "sample_keys ''N''"
    by (simp_all add: sample_keys_def)
  have s: "\<forall>s \<in> set (associatedStakeAccounts_of sample_ledger ''S1''). sample_keys s"
    "\<forall>s \<in> set (associatedStakeAccounts_of sample_ledger ''A''). sample_keys s"
    "\<forall>s \<in> set (associatedStakeAccounts_of sample_ledger ''N''). sample_keys s"
    by (simp_all add: sample_ledger_stake_accounts sample_keys_def)
  from classification_decision_table [where validKey = sample_keys and address = "''S1''"
         and L = sample_ledger and w = "\<lparr>ext = (), trace = []\<rparr>",
         OF sample_ledger_distinct k(1) s(1)]
       classification_decision_table [where validKey = sample_keys and address = "''A''"
         and L = sample_ledger and w = "\<lparr>ext = (), trace = []\<rparr>",
         OF sample_ledger_distinct k(2) s(2)]
       classification_decision_table [where validKey = sample_keys and address = "''N''"
         and L = sample_ledger and w = "\<lparr>ext = (), trace = []\<rparr>",
         OF sample_ledger_distinct k(3) s(3)]
  show ?thesis
    by (simp add: sample_ledger_stake sample_ledger_stake_accounts sample_ledger_counts
          hasAssociatedStakeAccounts_def)
qed

text \<open>
  C2 as stated fails for the combination true, true: the address \<open>X\<close> of the sample ledger
  is a stake account itself and has an associated stake account, and it is logged and
  counted as a stake account (1 signature), not logged as invalid and skipped.
\<close>

theorem indeterminate_counterexample:
  "isStakeAccountItself sample_ledger ''X''
   \<and> hasAssociatedStakeAccounts sample_ledger ''X''
   \<and> getTotalTransactionCount (ledger_connection sample_ledger) sample_keys [''X'']
       \<lparr>ext = (), trace = []\<rparr> =
       Some (1, \<lparr>ext = (), trace =
         [ProcessingAddress ''X'', AddressIsStakeAccount, TotalForStakeAccount 1,
          AccumulatingTotal 1, Separator]\<rparr>)"
proof -
  have "sample_keys ''X''" by (simp add: sample_keys_def)
  moreover have "\<forall>s \<in> set (associatedStakeAccounts_of sample_ledger ''X''). sample_keys s"
    by (simp add: sample_ledger_stake_accounts sample_keys_def)
  ultimately have "completes sample_ledger sample_keys never never ''X''"
    by (rule completes_no_failures)
  from tryAddress_ledger [OF sample_ledger_distinct this, of 0 "\<lparr>ext = (), trace = []\<rparr>"]
  show ?thesis
    by (simp add: getTotalTransactionCount_def ledger_connection_def spec_count_def
          sample_ledger_stake sample_ledger_stake_accounts sample_ledger_counts
          hasAssociatedStakeAccounts_def)
qed

section \<open>Fault isolation on any connection\<close>

lemma logged_counts_append: "logged_counts (xs @ ys) = logged_counts xs + logged_counts ys"
  by (induction xs rule: logged_counts.induct) auto

lemma processed_append: "processed (xs @ ys) = processed xs @ processed ys"
  by (induction xs rule: processed.induct) auto

lemma quietly_extends_refl: "quietly_extends w w"
  by (auto simp add: quietly_extends_def quiet_def)

lemma quietly_extends_trans:
  "quietly_extends w w1 \<Longrightarrow> quietly_extends w1 w2 \<Longrightarrow> quietly_extends w w2"
  by (fastforce simp add: quietly_extends_def quiet_def logged_counts_append processed_append)

lemma quietly_extends_emit: "quiet [e] \<Longrightarrow> quietly_extends w (emit e w)"
  by (auto simp add: quietly_extends_def emit_def)

lemma quietly_extends_ext: "quietly_extends w (w\<lparr>ext := c\<rparr>)"
  by (auto simp add: quietly_extends_def quiet_def)

lemma accounts_quietly: "quietly_extends w w1 \<Longrightarrow> accounts total0 w [] total0 w1"
  by (auto simp add: quietly_extends_def quiet_def accounts_def)

lemma accounts_trans:
  "accounts total0 w as total1 w1 \<Longrightarrow> accounts total1 w1 bs total2 w2 \<Longrightarrow>
   accounts total0 w (as @ bs) total2 w2"
  by (fastforce simp add: accounts_def logged_counts_append processed_append)

lemma accounts_emit:
  "accounts total0 w (processed [e]) (total0 + logged_counts [e]) (emit e w)"
  by (auto simp add: accounts_def emit_def)

lemma external_call_quiet: "external_call f w = Some (r, w1) \<Longrightarrow> quietly_extends w w1"
  by (auto simp add: external_call_def quietly_extends_ext split: prod.splits)

lemma withRetry_loop_quiet:
  assumes op: "\<And>w r w1. operation w = Some (r, w1) \<Longrightarrow> quietly_extends w w1"
  shows "withRetry_loop operation maxAttempts attempt delay lastError w = Some (r, w') \<Longrightarrow>
         quietly_extends w w'"
proof (induction n \<equiv> "nat (maxAttempts + 1 - attempt)" arbitrary: attempt delay lastError w)
  case 0
  then have "\<not> attempt \<le> maxAttempts" by simp
  with 0 have "w' = w" by (subst (asm) withRetry_loop.simps) simp
  then show ?case by (simp add: quietly_extends_refl)
next
  case (Suc n)
  then have le: "attempt \<le> maxAttempts" by simp
  from Suc.prems le obtain r1 w1 where call: "operation w = Some (r1, w1)"
    by (subst (asm) withRetry_loop.simps) (auto split: option.splits)
  note q1 = op [OF call]
  show ?case
  proof (cases r1)
    case (Inr v)
    with Suc.prems le call have "w' = w1" by (simp add: withRetry_loop_success)
    with q1 show ?thesis by simp
  next
    case (Inl e)
    show ?thesis
    proof (cases e)
      case Undefined
      with Inl Suc.prems le call have "w' = w1" by (simp add: withRetry_loop_failure_undefined)
      with q1 show ?thesis by simp
    next
      case (Error m)
      show ?thesis
      proof (cases "attempt < maxAttempts")
        case True
        let ?w2 = "emit (Sleep delay) (emit (WaitingBeforeRetry delay)
                     (emit (AttemptFailed attempt maxAttempts (Error m)) w1))"
        from Suc.prems call Inl Error True
        have again: "withRetry_loop operation maxAttempts (attempt + 1) (delay * 2) (Error m) ?w2 =
                       Some (r, w')"
          by (simp add: withRetry_loop_failure_retry)
        have "n = nat (maxAttempts + 1 - (attempt + 1))" using Suc.hyps(2) by simp
        from Suc.hyps(1) [OF this again] have "quietly_extends ?w2 w'" .
        moreover have "quietly_extends w1 ?w2"
          by (intro quietly_extends_trans [OF quietly_extends_emit quietly_extends_trans
                [OF quietly_extends_emit quietly_extends_emit]])
             (simp_all add: quiet_def)
        ultimately show ?thesis using q1 by (blast intro: quietly_extends_trans)
      next
        case False
        with le have eq: "attempt = maxAttempts" by simp
        from Suc.prems call Inl Error eq
        have "w' = emit (AttemptFailed maxAttempts maxAttempts (Error m)) w1"
          by (simp add: withRetry_loop_failure_last)
        moreover have "quietly_extends w1 (emit (AttemptFailed maxAttempts maxAttempts (Error m)) w1)"
          by (rule quietly_extends_emit) (simp add: quiet_def)
        ultimately show ?thesis using q1 by (blast intro: quietly_extends_trans)
      qed
    qed
  qed
qed

lemma withRetry_default_quiet:
  assumes "\<And>w r w1. operation w = Some (r, w1) \<Longrightarrow> quietly_extends w w1"
    and "withRetry_default operation w = Some (r, w')"
  shows "quietly_extends w w'"
  using assms(2) unfolding withRetry_default_def withRetry_def
  by (rule withRetry_loop_quiet [rotated]) (rule assms(1))

lemma withRetry_default_settles:
  "\<forall>w. \<exists>r w1. operation w = Some (r, w1) \<Longrightarrow> \<exists>r w'. withRetry_default operation w = Some (r, w')"
  unfolding withRetry_default_def withRetry_def by (rule withRetry_loop_settles)

lemma getSignaturesForAddress_loop_trace:
  assumes "getSignaturesForAddress_loop connection publicKey commitment_level signatures
             lastSignature w = Some y"
  shows "trace (snd y) = trace w"
proof (rule getSignaturesForAddress_loop.raw_induct
    [where P = "\<lambda>connection publicKey commitment_level signatures lastSignature w y.
                  trace (snd y) = trace w", OF _ assms], goal_cases)
  case (1 loop connection publicKey commitment_level signatures lastSignature w y)
  then show ?case
    by (auto simp add: external_call_def split: prod.splits sum.splits if_splits)
qed

lemma getSignaturesForAddress_quiet:
  assumes "getSignaturesForAddress connection validKey address commitment_level w = Some (r, w')"
  shows "quietly_extends w w'"
proof (rule withRetry_default_quiet)
  show "withRetry_default
          (\<lambda>w. case new_PublicKey validKey address of
                  Inl e \<Rightarrow> Some (Inl e, w)
                | Inr publicKey \<Rightarrow>
                    getSignaturesForAddress_loop connection publicKey commitment_level [] None w)
          w = Some (r, w')"
    using assms by (simp add: getSignaturesForAddress_def)
next
  fix w r w1
  assume "(case new_PublicKey validKey address of
             Inl e \<Rightarrow> Some (Inl e, w)
           | Inr publicKey \<Rightarrow>
               getSignaturesForAddress_loop connection publicKey commitment_level [] None w) =
          Some (r, w1)"
  then have "trace w1 = trace w"
    by (auto split: sum.splits dest: getSignaturesForAddress_loop_trace)
  then show "quietly_extends w w1"
    by (auto simp add: quietly_extends_def quiet_def)
qed

lemma scan_operation:
  "\<exists>r w1. (case external_call
              (rpc_getProgramAccounts connection StakeProgram_programId
                 [DataSize 200, Memcmp 44 address]) w of
            None \<Rightarrow> None
          | Some (Inl e, w1) \<Rightarrow> Some (Inl e, w1)
          | Some (Inr stakeAccounts, w1) \<Rightarrow>
              Some (Inr stakeAccounts, emit (FoundStakeAccounts (length stakeAccounts)) w1)) =
       Some (r, w1) \<and> quietly_extends w w1"
proof -
  obtain r c' where call: "rpc_getProgramAccounts connection StakeProgram_programId
                 [DataSize 200, Memcmp 44 address] (ext w) = (r, c')"
    by (cases "rpc_getProgramAccounts connection StakeProgram_programId
                 [DataSize 200, Memcmp 44 address] (ext w)") simp
  have "quietly_extends (w\<lparr>ext := c'\<rparr>) (emit (FoundStakeAccounts n) (w\<lparr>ext := c'\<rparr>))" for n
    by (rule quietly_extends_emit) (simp add: quiet_def)
  then have "quietly_extends w (emit (FoundStakeAccounts n) (w\<lparr>ext := c'\<rparr>))" for n
    by (rule quietly_extends_trans [OF quietly_extends_ext])
  with call show ?thesis
    by (cases r) (simp_all add: external_call_def quietly_extends_ext)
qed

lemma getStakeAccountsForAddress_settles:
  "\<exists>r w'. getStakeAccountsForAddress connection address maxAttempts delay w = Some (r, w')"
  unfolding getStakeAccountsForAddress_def withRetry_def
  by (rule withRetry_loop_settles) (use scan_operation in blast)

lemma getStakeAccountsForAddress_quiet:
  assumes "getStakeAccountsForAddress connection address maxAttempts delay w = Some (r, w')"
  shows "quietly_extends w w'"
  using assms unfolding getStakeAccountsForAddress_def withRetry_def
proof (rule withRetry_loop_quiet [rotated])
  fix w r w1
  assume "(case external_call
              (rpc_getProgramAccounts connection StakeProgram_programId
                 [DataSize 200, Memcmp 44 address]) w of
            None \<Rightarrow> None
          | Some (Inl e, w1) \<Rightarrow> Some (Inl e, w1)
          | Some (Inr stakeAccounts, w1) \<Rightarrow>
              Some (Inr stakeAccounts, emit (FoundStakeAccounts (length stakeAccounts)) w1)) =
       Some (r, w1)"
  with scan_operation [of connection address w] show "quietly_extends w w1" by auto
qed

lemma hasStakeAccount_settles:
  "\<exists>r w'. hasStakeAccount connection address w = Some (r, w') \<and> quietly_extends w w'"
proof -
  from getStakeAccountsForAddress_settles [of connection address 3 1000 w]
  obtain r w' where run: "getStakeAccountsForAddress connection address 3 1000 w = Some (r, w')"
    by blast
  from getStakeAccountsForAddress_quiet [OF run] run show ?thesis
    by (cases r) (simp_all add: hasStakeAccount_def)
qed

lemma getAssociatedStakeAccounts_settles:
  "\<exists>r w'. getAssociatedStakeAccounts connection address w = Some (r, w') \<and> quietly_extends w w'"
proof -
  let ?op = "\<lambda>w. case getStakeAccountsForAddress connection address 3 1000 w of
               None \<Rightarrow> None
             | Some (Inl e, w1) \<Rightarrow> Some (Inl e, w1)
             | Some (Inr stakeAccounts, w1) \<Rightarrow>
                 (let associatedStakeAccounts = map (\<lambda>account. toBase58 (pubkey account)) stakeAccounts
                  in Some (Inr associatedStakeAccounts,
                       emit (FoundAssociatedStakeAccounts (length associatedStakeAccounts)) w1))"
  have op: "\<exists>r w1. ?op w = Some (r, w1) \<and> quietly_extends w w1" for w
  proof -
    from getStakeAccountsForAddress_settles [of connection address 3 1000 w]
    obtain r w1 where run: "getStakeAccountsForAddress connection address 3 1000 w = Some (r, w1)"
      by blast
    note q = getStakeAccountsForAddress_quiet [OF run]
    have "quietly_extends w (emit (FoundAssociatedStakeAccounts n) w1)" for n
      by (rule quietly_extends_trans [OF q quietly_extends_emit]) (simp add: quiet_def)
    with run q show ?thesis by (cases r) (simp_all add: Let_def)
  qed
  then have "\<forall>w. \<exists>r w1. ?op w = Some (r, w1)" by blast
  from withRetry_default_settles [OF this, of w]
  obtain r w' where run: "withRetry_default ?op w = Some (r, w')" by blast
  have "quietly_extends w w'"
  proof (rule withRetry_default_quiet [OF _ run])
    fix v r1 v1
    assume a: "?op v = Some (r1, v1)"
    from op [of v] obtain r2 v2 where "?op v = Some (r2, v2)" "quietly_extends v v2" by blast
    with a show "quietly_extends v v1" by simp
  qed
  with run show ?thesis by (simp add: getAssociatedStakeAccounts_def)
qed

lemma getParsedAccountInfo_withRetry_settles:
  "\<exists>r w'. getParsedAccountInfo_withRetry connection validKey address w = Some (r, w')
     \<and> quietly_extends w w'"
proof -
  let ?op = "\<lambda>w. case new_PublicKey validKey address of
               Inl e \<Rightarrow> Some (Inl e, w)
             | Inr publicKey \<Rightarrow>
                 external_call (rpc_getParsedAccountInfo connection publicKey) w"
  have op: "\<exists>r w1. ?op w = Some (r, w1) \<and> quietly_extends w w1" for w
    by (cases "new_PublicKey validKey address")
       (auto simp add: quietly_extends_refl external_call_def quietly_extends_ext
          split: prod.splits)
  then have "\<forall>w. \<exists>r w1. ?op w = Some (r, w1)" by blast
  from withRetry_default_settles [OF this, of w]
  obtain r w' where run: "withRetry_default ?op w = Some (r, w')" by blast
  have "quietly_extends w w'"
  proof (rule withRetry_default_quiet [OF _ run])
    fix v r1 v1
    assume a: "?op v = Some (r1, v1)"
    from op [of v] obtain r2 v2 where "?op v = Some (r2, v2)" "quietly_extends v v2" by blast
    with a show "quietly_extends v v1" by simp
  qed
  with run show ?thesis by (simp add: getParsedAccountInfo_withRetry_def)
qed

lemma quietly_extends_step:
  "quietly_extends w w1 \<Longrightarrow> quiet [e] \<Longrightarrow> quietly_extends w (emit e w1)"
  by (blast intro: quietly_extends_trans quietly_extends_emit)

lemma accounts_count:
  "quietly_extends w w1 \<Longrightarrow> processed [e] = [] \<Longrightarrow>
   accounts total0 w [] (total0 + logged_counts [e]) (emit e w1)"
  using accounts_trans [OF accounts_quietly accounts_emit, of w w1 total0 e] by simp

lemma accounts_then_quietly:
  "accounts total0 w as total1 w1 \<Longrightarrow> quietly_extends w1 w2 \<Longrightarrow> accounts total0 w as total1 w2"
  using accounts_trans [OF _ accounts_quietly, of total0 w as total1 w1 w2] by simp

lemma endOfTry_accounts:
  "quietly_extends w w1 \<Longrightarrow>
   \<exists>outcome total1 w2. endOfTry total0 w1 = Some (outcome, total1, w2)
     \<and> accounts total0 w [] total1 w2"
proof -
  assume q: "quietly_extends w w1"
  have "quietly_extends w (emit Separator (emit (AccumulatingTotal total0) w1))"
    by (intro quietly_extends_step q) (simp_all add: quiet_def)
  then show ?thesis by (simp add: endOfTry_def accounts_quietly)
qed

lemma getSignaturesForAddress_settled:
  assumes "\<forall>a w. getSignaturesForAddress connection validKey a ''confirmed'' w \<noteq> None"
  obtains r w1 where "getSignaturesForAddress connection validKey address ''confirmed'' w =
    Some (r, w1)" and "quietly_extends w w1"
proof -
  from assms have "getSignaturesForAddress connection validKey address ''confirmed'' w \<noteq> None"
    by blast
  then obtain p where "getSignaturesForAddress connection validKey address ''confirmed'' w = Some p"
    by blast
  then obtain r w1 where
    run: "getSignaturesForAddress connection validKey address ''confirmed'' w = Some (r, w1)"
    by (cases p) simp
  with getSignaturesForAddress_quiet [OF run] that show thesis by blast
qed

lemma associatedStakeAccounts_loop_accounts:
  assumes settles: "\<forall>a w. getSignaturesForAddress connection validKey a ''confirmed'' w \<noteq> None"
  shows "quietly_extends w w0 \<Longrightarrow>
         \<exists>outcome total1 w2.
           associatedStakeAccounts_loop connection validKey stakeAccounts total0 w0 =
             Some (outcome, total1, w2)
         \<and> accounts total0 w [] total1 w2"
proof (induction stakeAccounts arbitrary: total0 w w0)
  case Nil
  then show ?case by (simp add: endOfTry_accounts)
next
  case (Cons s rest)
  have q0: "quietly_extends w (emit (ProcessingAssociatedStakeAccount s) w0)"
    using Cons.prems by (rule quietly_extends_step) (simp add: quiet_def)
  from settles obtain r w1 where
    run: "getSignaturesForAddress connection validKey s ''confirmed''
            (emit (ProcessingAssociatedStakeAccount s) w0) = Some (r, w1)"
    and q1: "quietly_extends (emit (ProcessingAssociatedStakeAccount s) w0) w1"
    by (rule getSignaturesForAddress_settled)
  note q = quietly_extends_trans [OF q0 q1]
  show ?case
  proof (cases r)
    case (Inl e)
    with run q show ?thesis by (auto intro: accounts_quietly)
  next
    case (Inr signatures)
    let ?w1 = "emit (TotalForAssociatedStakeAccount (length signatures)) w1"
    have step: "accounts total0 w [] (total0 + length signatures) ?w1"
      using accounts_count [OF q, of "TotalForAssociatedStakeAccount (length signatures)" total0]
      by simp
    from Cons.IH [OF quietly_extends_refl, of "total0 + length signatures" ?w1]
    obtain outcome total1 w2 where
      "associatedStakeAccounts_loop connection validKey rest (total0 + length signatures) ?w1 =
         Some (outcome, total1, w2)"
      "accounts (total0 + length signatures) ?w1 [] total1 w2"
      by blast
    with accounts_trans [OF step this(2)] Inr run show ?thesis by simp
  qed
qed

lemma ownSignatures_branch_accounts:
  assumes settles: "\<forall>a w. getSignaturesForAddress connection validKey a ''confirmed'' w \<noteq> None"
    and q: "quietly_extends w w0" and marker: "quiet [marker]"
    and count: "\<And>n. logged_counts [report n] = n" "\<And>n. processed [report n] = []"
  shows "\<exists>outcome total1 w2.
           (case getSignaturesForAddress connection validKey address ''confirmed'' (emit marker w0) of
              None \<Rightarrow> None
            | Some (Inl e, w1) \<Rightarrow> Some (Inl e, total0, w1)
            | Some (Inr signatures, w1) \<Rightarrow>
                endOfTry (total0 + length signatures) (emit (report (length signatures)) w1)) =
             Some (outcome, total1, w2)
         \<and> accounts total0 w [] total1 w2"
proof -
  have q0: "quietly_extends w (emit marker w0)"
    using q marker by (rule quietly_extends_step)
  from settles obtain r w1 where
    run: "getSignaturesForAddress connection validKey address ''confirmed'' (emit marker w0) =
            Some (r, w1)"
    and q1: "quietly_extends (emit marker w0) w1"
    by (rule getSignaturesForAddress_settled)
  note q' = quietly_extends_trans [OF q0 q1]
  show ?thesis
  proof (cases r)
    case (Inl e)
    with run q' show ?thesis by (auto intro: accounts_quietly)
  next
    case (Inr signatures)
    let ?w1 = "emit (report (length signatures)) w1"
    have step: "accounts total0 w [] (total0 + length signatures) ?w1"
      using accounts_count [OF q', of "report (length signatures)" total0] count by simp
    from endOfTry_accounts [OF quietly_extends_refl, of "total0 + length signatures" ?w1]
    obtain outcome total1 w2 where
      "endOfTry (total0 + length signatures) ?w1 = Some (outcome, total1, w2)"
      "accounts (total0 + length signatures) ?w1 [] total1 w2"
      by blast
    with accounts_trans [OF step this(2)] Inr run show ?thesis by simp
  qed
qed

lemma stakeAccountBranch_accounts:
  assumes "\<forall>a w. getSignaturesForAddress connection validKey a ''confirmed'' w \<noteq> None"
    and "quietly_extends w w0"
  shows "\<exists>outcome total1 w2.
           stakeAccountBranch connection validKey address total0 w0 = Some (outcome, total1, w2)
         \<and> accounts total0 w [] total1 w2"
  unfolding stakeAccountBranch_def
  by (rule ownSignatures_branch_accounts [OF assms]) (simp_all add: quiet_def)

lemma normalAccountBranch_accounts:
  assumes "\<forall>a w. getSignaturesForAddress connection validKey a ''confirmed'' w \<noteq> None"
    and "quietly_extends w w0"
  shows "\<exists>outcome total1 w2.
           normalAccountBranch connection validKey address total0 w0 = Some (outcome, total1, w2)
         \<and> accounts total0 w [] total1 w2"
  unfolding normalAccountBranch_def
  by (rule ownSignatures_branch_accounts [OF assms]) (simp_all add: quiet_def)

lemma mainAuthorityBranch_accounts:
  assumes settles: "\<forall>a w. getSignaturesForAddress connection validKey a ''confirmed'' w \<noteq> None"
    and q: "quietly_extends w w0"
  shows "\<exists>outcome total1 w2.
           mainAuthorityBranch connection validKey address total0 w0 = Some (outcome, total1, w2)
         \<and> accounts total0 w [] total1 w2"
proof -
  have q0: "quietly_extends w (emit AddressIsMainAuthority w0)"
    using q by (rule quietly_extends_step) (simp add: quiet_def)
  from settles obtain r w1 where
    run: "getSignaturesForAddress connection validKey address ''confirmed''
            (emit AddressIsMainAuthority w0) = Some (r, w1)"
    and q1: "quietly_extends (emit AddressIsMainAuthority w0) w1"
    by (rule getSignaturesForAddress_settled)
  note q' = quietly_extends_trans [OF q0 q1]
  show ?thesis
  proof (cases r)
    case (Inl e)
    with run q' show ?thesis by (auto simp add: mainAuthorityBranch_def intro: accounts_quietly)
  next
    case (Inr signatures)
    let ?w1 = "emit (TotalForMainAuthority (length signatures)) w1"
    have step: "accounts total0 w [] (total0 + length signatures) ?w1"
      using accounts_count [OF q', of "TotalForMainAuthority (length signatures)" total0] by simp
    from getAssociatedStakeAccounts_settles [of connection address ?w1]
    obtain r2 w2 where resolve: "getAssociatedStakeAccounts connection address ?w1 = Some (r2, w2)"
      and q2: "quietly_extends ?w1 w2"
      by blast
    show ?thesis
    proof (cases r2)
      case (Inl e)
      with run Inr resolve accounts_then_quietly [OF step q2] show ?thesis
        by (simp add: mainAuthorityBranch_def)
    next
      case stakeAccounts: (Inr associatedStakeAccounts)
      from associatedStakeAccounts_loop_accounts [OF settles q2,
             of associatedStakeAccounts "total0 + length signatures"]
      obtain outcome total1 w3 where
        "associatedStakeAccounts_loop connection validKey associatedStakeAccounts
           (total0 + length signatures) w2 = Some (outcome, total1, w3)"
        "accounts (total0 + length signatures) ?w1 [] total1 w3"
        by blast
      with accounts_trans [OF step this(2)] run Inr resolve stakeAccounts show ?thesis
        by (simp add: mainAuthorityBranch_def)
    qed
  qed
qed

lemma tryAddress_unfold:
  "tryAddress connection validKey address total0 w =
     (case getParsedAccountInfo_withRetry connection validKey address
             (emit (ProcessingAddress address) w) of
        None \<Rightarrow> None
      | Some (Inl e, w1) \<Rightarrow> Some (Inl e, total0, w1)
      | Some (Inr accountInfo, w1) \<Rightarrow>
          (if program_of accountInfo = Some ''stake'' then
             stakeAccountBranch connection validKey address total0 w1
           else
             (case hasStakeAccount connection address w1 of
                None \<Rightarrow> None
              | Some (Inl e, w2) \<Rightarrow> Some (Inl e, total0, w2)
              | Some (Inr True, w2) \<Rightarrow>
                  mainAuthorityBranch connection validKey address total0 w2
              | Some (Inr False, w2) \<Rightarrow>
                  (case hasStakeAccount connection address w2 of
                     None \<Rightarrow> None
                   | Some (Inl e, w3) \<Rightarrow> Some (Inl e, total0, w3)
                   | Some (Inr again, w3) \<Rightarrow>
                       (if \<not> again \<and> program_of accountInfo \<noteq> Some ''stake'' then
                          normalAccountBranch connection validKey address total0 w3
                        else endOfTry total0 (emit InvalidAddressBranch w3))))))"
  by (simp add: tryAddress_def getParsedAccountInfo_withRetry_def)

lemma tryAddress_accounts:
  assumes settles: "\<forall>a w. getSignaturesForAddress connection validKey a ''confirmed'' w \<noteq> None"
  shows "\<exists>outcome total1 w'.
           tryAddress connection validKey address total0 w = Some (outcome, total1, w')
         \<and> accounts total0 w [address] total1 w'"
proof -
  let ?w0 = "emit (ProcessingAddress address) w"
  have start: "accounts total0 w [address] total0 ?w0"
    using accounts_emit [of total0 w "ProcessingAddress address"] by simp
  have finish: "\<exists>outcome total1 w'. x = Some (outcome, total1, w')
      \<and> accounts total0 w [address] total1 w'"
    if "\<exists>outcome total1 w'. x = Some (outcome, total1, w') \<and> accounts total0 ?w0 [] total1 w'"
    for x
    using that accounts_trans [OF start] by fastforce
  from getParsedAccountInfo_withRetry_settles [of connection validKey address ?w0]
  obtain r w1 where look: "getParsedAccountInfo_withRetry connection validKey address ?w0 =
      Some (r, w1)" and q1: "quietly_extends ?w0 w1"
    by blast
  show ?thesis
  proof (cases r)
    case (Inl e)
    with look q1 show ?thesis
      by (intro finish) (simp add: tryAddress_unfold accounts_quietly)
  next
    case (Inr accountInfo)
    show ?thesis
    proof (cases "program_of accountInfo = Some ''stake''")
      case True
      with look Inr stakeAccountBranch_accounts [OF settles q1, of address total0] show ?thesis
        by (intro finish) (simp add: tryAddress_unfold)
    next
      case notStake: False
      from hasStakeAccount_settles [of connection address w1]
      obtain r2 w2 where has: "hasStakeAccount connection address w1 = Some (r2, w2)"
        and q2: "quietly_extends w1 w2"
        by blast
      note q12 = quietly_extends_trans [OF q1 q2]
      show ?thesis
      proof (cases r2)
        case (Inl e)
        with look Inr notStake has q12 show ?thesis
          by (intro finish) (simp add: tryAddress_unfold accounts_quietly)
      next
        case first: (Inr found)
        show ?thesis
        proof (cases found)
          case True
          with look Inr notStake has first
            mainAuthorityBranch_accounts [OF settles q12, of address total0]
          show ?thesis by (intro finish) (simp add: tryAddress_unfold)
        next
          case False
          from hasStakeAccount_settles [of connection address w2]
          obtain r3 w3 where again: "hasStakeAccount connection address w2 = Some (r3, w3)"
            and q3: "quietly_extends w2 w3"
            by blast
          note q123 = quietly_extends_trans [OF q12 q3]
          show ?thesis
          proof (cases r3)
            case (Inl e)
            with look Inr notStake has first False again q123 show ?thesis
              by (intro finish) (simp add: tryAddress_unfold accounts_quietly)
          next
            case second: (Inr found2)
            have invalid: "quietly_extends ?w0 (emit InvalidAddressBranch w3)"
              using q123 by (rule quietly_extends_step) (simp add: quiet_def)
            from look Inr notStake has first False again second
              normalAccountBranch_accounts [OF settles q123, of address total0]
              endOfTry_accounts [OF invalid, of total0]
            show ?thesis by (intro finish) (simp add: tryAddress_unfold)
          qed
        qed
      qed
    qed
  qed
qed

lemma getTotalTransactionCount_loop_accounts:
  assumes settles: "\<forall>a w. getSignaturesForAddress connection validKey a ''confirmed'' w \<noteq> None"
  shows "\<exists>total1 w'.
           getTotalTransactionCount_loop connection validKey addresses total0 w = Some (total1, w')
         \<and> accounts total0 w addresses total1 w'"
proof (induction addresses arbitrary: total0 w)
  case Nil
  show ?case using accounts_quietly [OF quietly_extends_refl] by simp
next
  case (Cons address rest)
  from tryAddress_accounts [OF settles, of address total0 w]
  obtain outcome total1 w1 where
    run: "tryAddress connection validKey address total0 w = Some (outcome, total1, w1)"
    and a1: "accounts total0 w [address] total1 w1"
    by blast
  show ?case
  proof (cases outcome)
    case (Inr u)
    from Cons.IH [of total1 w1] obtain total2 w2 where
      "getTotalTransactionCount_loop connection validKey rest total1 w1 = Some (total2, w2)"
      "accounts total1 w1 rest total2 w2"
      by blast
    with accounts_trans [OF a1 this(2)] run Inr show ?thesis by simp
  next
    case (Inl e)
    let ?w1 = "emit (ErrorProcessingAddress address e) w1"
    have a1': "accounts total0 w [address] total1 ?w1"
      by (rule accounts_then_quietly [OF a1 quietly_extends_emit]) (simp add: quiet_def)
    from Cons.IH [of total1 ?w1] obtain total2 w2 where
      "getTotalTransactionCount_loop connection validKey rest total1 ?w1 = Some (total2, w2)"
      "accounts total1 ?w1 rest total2 w2"
      by blast
    with accounts_trans [OF a1' this(2)] run Inl show ?thesis by simp
  qed
qed

section \<open>Connections on which calls fail\<close>

lemma withRetry_loop_fails_while:
  assumes op: "\<forall>w. P (ext w) \<longrightarrow> (\<exists>w1. operation w = Some (Inl (Error m), w1) \<and> P (ext w1))"
  shows "P (ext w) \<Longrightarrow> attempt \<le> maxAttempts \<Longrightarrow>
         \<exists>w'. withRetry_loop operation maxAttempts attempt delay lastError w =
                 Some (Inl (Error m), w') \<and> P (ext w')"
proof (induction n \<equiv> "nat (maxAttempts - attempt)" arbitrary: attempt delay lastError w)
  case 0
  then have eq: "attempt = maxAttempts" and inv: "P (ext w)" by simp_all
  from op inv obtain w1 where "operation w = Some (Inl (Error m), w1)" "P (ext w1)"
    by blast
  then show ?case unfolding eq by (simp add: withRetry_loop_failure_last emit_def)
next
  case (Suc n)
  then have less: "attempt < maxAttempts" by simp
  from op Suc.prems(1) obtain w1
    where call: "operation w = Some (Inl (Error m), w1)" and inv: "P (ext w1)"
    by blast
  have n: "n = nat (maxAttempts - (attempt + 1))" using Suc.hyps(2) by simp
  have le: "attempt + 1 \<le> maxAttempts" using less by simp
  let ?w2 = "emit (Sleep delay) (emit (WaitingBeforeRetry delay)
        (emit (AttemptFailed attempt maxAttempts (Error m)) w1))"
  have "P (ext ?w2)" using inv by (simp add: emit_def)
  from Suc.hyps(1) [OF n this le, of "delay * 2" "Error m"] show ?case
    using call less by (simp add: withRetry_loop_failure_retry)
qed

lemma getStakeAccountsForAddress_failing_scans_fails:
  assumes "k \<le> ext w"
  shows "\<exists>w'. getStakeAccountsForAddress (failing_scans L k) address 3 1000 w =
           Some (Inl (Error ''scan failed''), w') \<and> k \<le> ext w'"
  unfolding getStakeAccountsForAddress_def withRetry_def
  by (rule withRetry_loop_fails_while [where P = "\<lambda>c. k \<le> c", OF _ assms])
     (simp_all add: external_call_def failing_scans_def)

lemma hasStakeAccount_failing_scans_fails:
  assumes "k \<le> ext w"
  shows "\<exists>w'. hasStakeAccount (failing_scans L k) address w =
           Some (Inl (Error ''scan failed''), w')"
  using getStakeAccountsForAddress_failing_scans_fails [OF assms, of L address]
  by (auto simp add: hasStakeAccount_def)

lemma getAssociatedStakeAccounts_failing_scans_fails:
  assumes "k \<le> ext w"
  shows "\<exists>w'. getAssociatedStakeAccounts (failing_scans L k) address w =
           Some (Inl (Error ''scan failed''), w')"
proof -
  have "\<exists>w'. getAssociatedStakeAccounts (failing_scans L k) address w =
           Some (Inl (Error ''scan failed''), w') \<and> k \<le> ext w'"
    unfolding getAssociatedStakeAccounts_def withRetry_default_def withRetry_def
  proof (rule withRetry_loop_fails_while [where P = "\<lambda>c. k \<le> c", OF _ assms], intro allI impI)
    fix w0 :: "nat world"
    assume "k \<le> ext w0"
    from getStakeAccountsForAddress_failing_scans_fails [OF this, of L address]
    show "\<exists>w1. (case getStakeAccountsForAddress (failing_scans L k) address 3 1000 w0 of
                  None \<Rightarrow> None
                | Some (Inl e, w1) \<Rightarrow> Some (Inl e, w1)
                | Some (Inr stakeAccounts, w1) \<Rightarrow>
                    (let associatedStakeAccounts =
                           map (\<lambda>account. toBase58 (pubkey account)) stakeAccounts
                     in Some (Inr associatedStakeAccounts,
                          emit (FoundAssociatedStakeAccounts (length associatedStakeAccounts))
                            w1))) =
               Some (Inl (Error ''scan failed''), w1) \<and> k \<le> ext w1"
      by auto
  qed simp
  then show ?thesis by blast
qed

lemma hasStakeAccount_failing_scans:
  assumes "ext w < k"
  shows "hasStakeAccount (failing_scans L k) address w =
           Some (Inr (hasAssociatedStakeAccounts L address),
             emit (FoundStakeAccounts (length (associatedStakeAccounts_of L address)))
               (w\<lparr>ext := Suc (ext w)\<rparr>))"
proof -
  have "getStakeAccountsForAddress (failing_scans L k) address 3 1000 w =
     Some (Inr (programAccounts_of L StakeProgram_programId [DataSize 200, Memcmp 44 address]),
       emit (FoundStakeAccounts (length (associatedStakeAccounts_of L address)))
         (w\<lparr>ext := Suc (ext w)\<rparr>))"
    unfolding getStakeAccountsForAddress_def withRetry_def
    using assms
    by (intro withRetry_loop_success)
       (simp_all add: external_call_def failing_scans_def associatedStakeAccounts_of_def)
  then show ?thesis
    by (simp add: hasStakeAccount_def isArrayNotEmpty_def hasAssociatedStakeAccounts_def
          associatedStakeAccounts_of_def)
qed

lemma lookup_failing_scans:
  assumes "validKey address"
  shows "getParsedAccountInfo_withRetry (failing_scans L k) validKey address w =
           Some (Inr (accountInfo_of L address), w)"
  unfolding getParsedAccountInfo_withRetry_def
  by (rule withRetry_default_success)
     (simp add: new_PublicKey_def assms external_call_def failing_scans_def)

lemma getSignaturesForAddress_failing_scans:
  assumes "distinct (map signature (history_of L address))" and "validKey address"
  shows "getSignaturesForAddress (failing_scans L k) validKey address commitment_level w =
           Some (Inr (history_of L address), w)"
  by (rule getSignaturesForAddress_served [where validKey = validKey and address = address
        and L = L, OF assms])
     (simp add: failing_scans_def)

lemma getSignaturesForAddress_failing_scans_settles:
  assumes "\<forall>a. distinct (map signature (history_of L a))"
  shows "\<forall>a w. getSignaturesForAddress (failing_scans L k) validKey a ''confirmed'' w \<noteq> None"
proof (intro allI)
  fix a and w :: "nat world"
  show "getSignaturesForAddress (failing_scans L k) validKey a ''confirmed'' w \<noteq> None"
  proof (cases "validKey a")
    case True
    with assms show ?thesis by (simp add: getSignaturesForAddress_failing_scans)
  next
    case False
    then have "\<exists>w'. getSignaturesForAddress (failing_scans L k) validKey a ''confirmed'' w =
        Some (Inl (Error ''Invalid public key input''), w')"
      unfolding getSignaturesForAddress_def
      by (intro withRetry_default_always_fails) (simp add: new_PublicKey_def)
    then show ?thesis by auto
  qed
qed

lemma getSignaturesForAddress_faulty_settles:
  assumes "\<forall>a. distinct (map signature (history_of L a))"
  shows "\<forall>a w. getSignaturesForAddress (faulty_connection L lookupFails historyFails) validKey a
           ''confirmed'' w \<noteq> None"
proof (intro allI)
  fix a and w :: "'c world"
  show "getSignaturesForAddress (faulty_connection L lookupFails historyFails) validKey a
           ''confirmed'' w \<noteq> None"
  proof (cases "fetchable validKey historyFails a")
    case True
    with assms show ?thesis by (simp add: getSignaturesForAddress_ledger)
  next
    case False
    from getSignaturesForAddress_unfetchable [OF False, of L lookupFails "''confirmed''" w]
    show ?thesis by auto
  qed
qed

lemma lookup_faulty:
  assumes "validKey address" and "\<not> lookupFails address"
  shows "getParsedAccountInfo_withRetry (faulty_connection L lookupFails historyFails) validKey
           address w = Some (Inr (accountInfo_of L address), w)"
  unfolding getParsedAccountInfo_withRetry_def by (rule lookup_ledger [where validKey = validKey and address = address
        and lookupFails = lookupFails, OF assms])

lemma lookup_faulty_fails:
  assumes "\<not> (validKey address \<and> \<not> lookupFails address)"
  shows "\<exists>m w'. getParsedAccountInfo_withRetry (faulty_connection L lookupFails historyFails)
           validKey address w = Some (Inl (Error m), w')"
  unfolding getParsedAccountInfo_withRetry_def by (rule lookup_ledger_fails [where validKey = validKey and address = address
        and lookupFails = lookupFails, OF assms])

lemma tryAddress_failing_scans_authority:
  assumes "distinct (map signature (history_of L address))" and "validKey address"
    and "\<not> isStakeAccountItself L address" and "hasAssociatedStakeAccounts L address"
    and "ext w = 0"
  shows "\<exists>w'. tryAddress (failing_scans L 1) validKey address total0 w =
           Some (Inl (Error ''scan failed''), total0 + signatureCount L address, w')"
proof -
  let ?w1 = "emit (ProcessingAddress address) w"
  let ?w2 = "emit (FoundStakeAccounts (length (associatedStakeAccounts_of L address)))
               (?w1\<lparr>ext := Suc (ext ?w1)\<rparr>)"
  let ?w3 = "emit (TotalForMainAuthority (length (history_of L address)))
               (emit AddressIsMainAuthority ?w2)"
  have "1 \<le> ext ?w3" by (simp add: emit_def)
  from getAssociatedStakeAccounts_failing_scans_fails [OF this, of L address]
  obtain w' where "getAssociatedStakeAccounts (failing_scans L 1) address ?w3 =
      Some (Inl (Error ''scan failed''), w')"
    by blast
  moreover have "ext ?w1 < 1" using assms(5) by (simp add: emit_def)
  ultimately show ?thesis
    using assms(3,4)
    by (simp add: tryAddress_unfold
          lookup_failing_scans [where validKey = validKey and address = address, OF assms(2)]
          hasStakeAccount_failing_scans isStakeAccountItself_def mainAuthorityBranch_def
          getSignaturesForAddress_failing_scans [where validKey = validKey
            and address = address and L = L, OF assms(1,2)] signatureCount_def)
qed

text \<open>
  C3, amended. Let every fetch of a signature history settle. Then, on any connection and
  whatever fails:
  \<^item> the run returns a total, it has begun the processing of every address of the list, in
    order, and the total has grown by exactly the counts that were reported, each of which
    was added when its history arrived: what an address added before a failure stays;
  \<^item> the processing of each address ends, with or without a thrown value, and what it has
    added to the total is what it has reported;
  \<^item> a value thrown in the processing of an address is caught, and the next addresses are
    processed with the total as it was at the throw;
  \<^item> when the classification of an address fails (in its account lookup, in the first scan
    for its stake accounts, or in the second one) or the fetch of its own signature history
    fails (as a stake account, as a main authority account, as a normal account), the
    address has added exactly zero.
\<close>

theorem getTotalTransactionCount_fault_isolation:
  assumes "\<forall>a w. getSignaturesForAddress connection validKey a ''confirmed'' w \<noteq> None"
  shows
    "(\<exists>total' w' evs.
        getTotalTransactionCount_loop connection validKey addresses total0 w = Some (total', w')
        \<and> trace w' = trace w @ evs \<and> total' = total0 + logged_counts evs
        \<and> processed evs = addresses)
     \<and> (\<exists>outcome total1 w1 evs.
          tryAddress connection validKey address total0 w = Some (outcome, total1, w1)
          \<and> trace w1 = trace w @ evs \<and> total1 = total0 + logged_counts evs
          \<and> processed evs = [address])
     \<and> (tryAddress connection validKey address total0 w = Some (Inl e, total1, w1) \<longrightarrow>
          getTotalTransactionCount_loop connection validKey (address # rest) total0 w =
          getTotalTransactionCount_loop connection validKey rest total1
            (emit (ErrorProcessingAddress address e) w1))
     \<and> (getParsedAccountInfo_withRetry connection validKey address
            (emit (ProcessingAddress address) w) = Some (Inl e, w1) \<longrightarrow>
          tryAddress connection validKey address total0 w = Some (Inl e, total0, w1))
     \<and> (getParsedAccountInfo_withRetry connection validKey address
            (emit (ProcessingAddress address) w) = Some (Inr accountInfo, w1)
          \<and> program_of accountInfo \<noteq> Some ''stake''
          \<and> hasStakeAccount connection address w1 = Some (Inl e, w2) \<longrightarrow>
          tryAddress connection validKey address total0 w = Some (Inl e, total0, w2))
     \<and> (getParsedAccountInfo_withRetry connection validKey address
            (emit (ProcessingAddress address) w) = Some (Inr accountInfo, w1)
          \<and> program_of accountInfo \<noteq> Some ''stake''
          \<and> hasStakeAccount connection address w1 = Some (Inr False, w2)
          \<and> hasStakeAccount connection address w2 = Some (Inl e, w3) \<longrightarrow>
          tryAddress connection validKey address total0 w = Some (Inl e, total0, w3))
     \<and> (getParsedAccountInfo_withRetry connection validKey address
            (emit (ProcessingAddress address) w) = Some (Inr accountInfo, w1)
          \<and> program_of accountInfo = Some ''stake''
          \<and> getSignaturesForAddress connection validKey address ''confirmed''
              (emit AddressIsStakeAccount w1) = Some (Inl e, w2) \<longrightarrow>
          tryAddress connection validKey address total0 w = Some (Inl e, total0, w2))
     \<and> (getParsedAccountInfo_withRetry connection validKey address
            (emit (ProcessingAddress address) w) = Some (Inr accountInfo, w1)
          \<and> program_of accountInfo \<noteq> Some ''stake''
          \<and> hasStakeAccount connection address w1 = Some (Inr True, w2)
          \<and> getSignaturesForAddress connection validKey address ''confirmed''
              (emit AddressIsMainAuthority w2) = Some (Inl e, w3) \<longrightarrow>
          tryAddress connection validKey address total0 w = Some (Inl e, total0, w3))
     \<and> (getParsedAccountInfo_withRetry connection validKey address
            (emit (ProcessingAddress address) w) = Some (Inr accountInfo, w1)
          \<and> program_of accountInfo \<noteq> Some ''stake''
          \<and> hasStakeAccount connection address w1 = Some (Inr False, w2)
          \<and> hasStakeAccount connection address w2 = Some (Inr False, w3)
          \<and> getSignaturesForAddress connection validKey address ''confirmed''
              (emit AddressIsNormalAccount w3) = Some (Inl e, w4) \<longrightarrow>
          tryAddress connection validKey address total0 w = Some (Inl e, total0, w4))"
proof (intro conjI impI)
  from getTotalTransactionCount_loop_accounts [OF assms, of addresses total0 w]
  show "\<exists>total' w' evs.
        getTotalTransactionCount_loop connection validKey addresses total0 w = Some (total', w')
        \<and> trace w' = trace w @ evs \<and> total' = total0 + logged_counts evs
        \<and> processed evs = addresses"
    unfolding accounts_def by blast
next
  from tryAddress_accounts [OF assms, of address total0 w]
  show "\<exists>outcome total1 w1 evs.
          tryAddress connection validKey address total0 w = Some (outcome, total1, w1)
          \<and> trace w1 = trace w @ evs \<and> total1 = total0 + logged_counts evs
          \<and> processed evs = [address]"
    unfolding accounts_def by blast
qed (simp_all add: tryAddress_unfold stakeAccountBranch_def mainAuthorityBranch_def
       normalAccountBranch_def)

lemma sample_faulty_counts:
  "faulty_count sample_ledger sample_keys only_N never ''A'' = 6"
  "faulty_count sample_ledger sample_keys only_N never ''N'' = 0"
  "faulty_count sample_ledger sample_keys only_N never ''S1'' = 3"
  "faulty_count sample_ledger sample_keys never only_S2 ''A'' = 5"
  by (simp_all add: faulty_count_def fetchable_def sample_keys_def only_N_def only_S2_def
        never_def sample_ledger_stake sample_ledger_stake_accounts sample_ledger_counts
        hasAssociatedStakeAccounts_def)

theorem getTotalTransactionCount_fault_isolation_witness:
  "(\<exists>w'. getTotalTransactionCount (faulty_connection sample_ledger only_N never) sample_keys
            [''A'', ''N'', ''S1''] \<lparr>ext = (), trace = []\<rparr> = Some (9, w')
          \<and> logged_counts (trace w') = 9 \<and> processed (trace w') = [''A'', ''N'', ''S1''])
   \<and> (\<exists>e w1. tryAddress (faulty_connection sample_ledger only_N never) sample_keys ''N'' 6
            \<lparr>ext = (), trace = []\<rparr> = Some (Inl e, 6, w1)
          \<and> getTotalTransactionCount_loop (faulty_connection sample_ledger only_N never)
              sample_keys [''N'', ''S1''] 6 \<lparr>ext = (), trace = []\<rparr> =
            getTotalTransactionCount_loop (faulty_connection sample_ledger only_N never)
              sample_keys [''S1''] 6 (emit (ErrorProcessingAddress ''N'' e) w1))
   \<and> (\<exists>w'. tryAddress (failing_scans sample_ledger 0) sample_keys ''A'' 7
            \<lparr>ext = 0, trace = []\<rparr> = Some (Inl (Error ''scan failed''), 7, w'))
   \<and> (\<exists>w'. tryAddress (failing_scans sample_ledger 1) sample_keys ''N'' 7
            \<lparr>ext = 0, trace = []\<rparr> = Some (Inl (Error ''scan failed''), 7, w'))
   \<and> (\<exists>w'. tryAddress (failing_scans sample_ledger 1) sample_keys ''A'' 7
            \<lparr>ext = 0, trace = []\<rparr> = Some (Inl (Error ''scan failed''), 9, w')
          \<and> logged_counts (trace w') = 2 \<and> processed (trace w') = [''A''])
   \<and> (\<exists>e w'. tryAddress (faulty_connection sample_ledger never only_S2) sample_keys ''S2'' 7
            \<lparr>ext = (), trace = []\<rparr> = Some (Inl e, 7, w'))
   \<and> (\<exists>e w'. tryAddress (faulty_connection sample_ledger never only_A) sample_keys ''A'' 7
            \<lparr>ext = (), trace = []\<rparr> = Some (Inl e, 7, w'))
   \<and> (\<exists>e w'. tryAddress (faulty_connection sample_ledger never only_N) sample_keys ''N'' 7
            \<lparr>ext = (), trace = []\<rparr> = Some (Inl e, 7, w'))"
proof -
  note d = sample_ledger_distinct
  note lookup_N = getTotalTransactionCount_fault_isolation
    [where connection = "faulty_connection sample_ledger only_N never :: unit connection"
       and validKey = sample_keys, OF getSignaturesForAddress_faulty_settles [OF d]]
  note history_S2 = getTotalTransactionCount_fault_isolation
    [where connection = "faulty_connection sample_ledger never only_S2 :: unit connection"
       and validKey = sample_keys, OF getSignaturesForAddress_faulty_settles [OF d]]
  note history_A = getTotalTransactionCount_fault_isolation
    [where connection = "faulty_connection sample_ledger never only_A :: unit connection"
       and validKey = sample_keys, OF getSignaturesForAddress_faulty_settles [OF d]]
  note history_N = getTotalTransactionCount_fault_isolation
    [where connection = "faulty_connection sample_ledger never only_N :: unit connection"
       and validKey = sample_keys, OF getSignaturesForAddress_faulty_settles [OF d]]
  note scans_0 = getTotalTransactionCount_fault_isolation
    [where connection = "failing_scans sample_ledger 0"
       and validKey = sample_keys, OF getSignaturesForAddress_failing_scans_settles [OF d]]
  note scans_1 = getTotalTransactionCount_fault_isolation
    [where connection = "failing_scans sample_ledger 1"
       and validKey = sample_keys, OF getSignaturesForAddress_failing_scans_settles [OF d]]
  let ?w = "\<lparr>ext = (), trace = []\<rparr>"
  let ?v = "\<lparr>ext = 0 :: nat, trace = []\<rparr>"
  have key: "sample_keys ''A''" "sample_keys ''N''" "sample_keys ''S2''"
    by (simp_all add: sample_keys_def)
  have stake: "program_of (accountInfo_of sample_ledger ''A'') \<noteq> Some ''stake''"
    "program_of (accountInfo_of sample_ledger ''N'') \<noteq> Some ''stake''"
    "program_of (accountInfo_of sample_ledger ''S2'') = Some ''stake''"
    using sample_ledger_stake by (simp_all add: isStakeAccountItself_def)
  have has: "hasAssociatedStakeAccounts sample_ledger ''A''"
    "\<not> hasAssociatedStakeAccounts sample_ledger ''N''"
    by (simp_all add: hasAssociatedStakeAccounts_def sample_ledger_stake_accounts)

  have c1: "\<exists>w'. getTotalTransactionCount (faulty_connection sample_ledger only_N never)
            sample_keys [''A'', ''N'', ''S1''] ?w = Some (9, w')
          \<and> logged_counts (trace w') = 9 \<and> processed (trace w') = [''A'', ''N'', ''S1'']"
  proof -
    have "\<exists>total' w' evs.
        getTotalTransactionCount_loop (faulty_connection sample_ledger only_N never)
          sample_keys [''A'', ''N'', ''S1''] 0 ?w = Some (total', w')
        \<and> trace w' = trace ?w @ evs \<and> total' = 0 + logged_counts evs
        \<and> processed evs = [''A'', ''N'', ''S1'']"
      by (rule lookup_N [THEN conjunct1])
    then obtain total' w' evs where run:
      "getTotalTransactionCount_loop (faulty_connection sample_ledger only_N never)
         sample_keys [''A'', ''N'', ''S1''] 0 ?w = Some (total', w')"
      "trace w' = evs" "total' = logged_counts evs" "processed evs = [''A'', ''N'', ''S1'']"
      by auto
    from getTotalTransactionCount_loop_ledger [OF d, of only_N never sample_keys
        "[''A'', ''N'', ''S1'']" 0 ?w] run(1)
    have "total' = 9" by (auto simp add: sample_faulty_counts)
    with run show ?thesis by (simp add: getTotalTransactionCount_def)
  qed

  have c2: "\<exists>e w1. tryAddress (faulty_connection sample_ledger only_N never) sample_keys ''N'' 6
            ?w = Some (Inl e, 6, w1)
          \<and> getTotalTransactionCount_loop (faulty_connection sample_ledger only_N never)
              sample_keys [''N'', ''S1''] 6 ?w =
            getTotalTransactionCount_loop (faulty_connection sample_ledger only_N never)
              sample_keys [''S1''] 6 (emit (ErrorProcessingAddress ''N'' e) w1)"
  proof -
    have "\<not> (sample_keys ''N'' \<and> \<not> only_N ''N'')" by (simp add: only_N_def)
    from lookup_faulty_fails [where validKey = sample_keys and address = "''N''"
        and lookupFails = only_N, OF this, of sample_ledger never
        "emit (ProcessingAddress ''N'') ?w"]
    obtain m w1 where look:
      "getParsedAccountInfo_withRetry (faulty_connection sample_ledger only_N never)
         sample_keys ''N'' (emit (ProcessingAddress ''N'') ?w) = Some (Inl (Error m), w1)"
      by blast
    from lookup_N [THEN conjunct2, THEN conjunct2, THEN conjunct2, THEN conjunct1, rule_format,
        OF look, of 6]
    have thrown: "tryAddress (faulty_connection sample_ledger only_N never) sample_keys ''N'' 6
        ?w = Some (Inl (Error m), 6, w1)" .
    from lookup_N [THEN conjunct2, THEN conjunct2, THEN conjunct1, rule_format, OF thrown,
        of "[''S1'']"]
    have "getTotalTransactionCount_loop (faulty_connection sample_ledger only_N never)
              sample_keys [''N'', ''S1''] 6 ?w =
            getTotalTransactionCount_loop (faulty_connection sample_ledger only_N never)
              sample_keys [''S1''] 6 (emit (ErrorProcessingAddress ''N'' (Error m)) w1)" .
    with thrown show ?thesis by blast
  qed

  have c3: "\<exists>w'. tryAddress (failing_scans sample_ledger 0) sample_keys ''A'' 7 ?v =
      Some (Inl (Error ''scan failed''), 7, w')"
  proof -
    let ?w1 = "emit (ProcessingAddress ''A'') ?v"
    note look = lookup_failing_scans [where validKey = sample_keys and address = "''A''",
        OF key(1), of sample_ledger 0 ?w1]
    have "0 \<le> ext ?w1" by simp
    from hasStakeAccount_failing_scans_fails [OF this, of sample_ledger "''A''"]
    obtain w2 where scan: "hasStakeAccount (failing_scans sample_ledger 0) ''A'' ?w1 =
        Some (Inl (Error ''scan failed''), w2)"
      by blast
    from scans_0 [THEN conjunct2, THEN conjunct2, THEN conjunct2, THEN conjunct2, THEN conjunct1,
        rule_format, OF conjI [OF look conjI [OF stake(1) scan]], of 7]
    show ?thesis by blast
  qed

  have c4: "\<exists>w'. tryAddress (failing_scans sample_ledger 1) sample_keys ''N'' 7 ?v =
      Some (Inl (Error ''scan failed''), 7, w')"
  proof -
    let ?w1 = "emit (ProcessingAddress ''N'') ?v"
    let ?w2 = "emit (FoundStakeAccounts (length (associatedStakeAccounts_of sample_ledger ''N'')))
                 (?w1\<lparr>ext := Suc (ext ?w1)\<rparr>)"
    note look = lookup_failing_scans [where validKey = sample_keys and address = "''N''",
        OF key(2), of sample_ledger 1 ?w1]
    have "ext ?w1 < 1" by (simp add: emit_def)
    from hasStakeAccount_failing_scans [OF this, of sample_ledger "''N''"] has(2)
    have first: "hasStakeAccount (failing_scans sample_ledger 1) ''N'' ?w1 =
        Some (Inr False, ?w2)"
      by simp
    have "1 \<le> ext ?w2" by (simp add: emit_def)
    from hasStakeAccount_failing_scans_fails [OF this, of sample_ledger "''N''"]
    obtain w3 where scan: "hasStakeAccount (failing_scans sample_ledger 1) ''N'' ?w2 =
        Some (Inl (Error ''scan failed''), w3)"
      by blast
    from scans_1 [THEN conjunct2, THEN conjunct2, THEN conjunct2, THEN conjunct2, THEN conjunct2,
        THEN conjunct1, rule_format,
        OF conjI [OF look conjI [OF stake(2) conjI [OF first scan]]], of 7]
    show ?thesis by blast
  qed

  have c5: "\<exists>w'. tryAddress (failing_scans sample_ledger 1) sample_keys ''A'' 7 ?v =
      Some (Inl (Error ''scan failed''), 9, w')
      \<and> logged_counts (trace w') = 2 \<and> processed (trace w') = [''A'']"
  proof -
    have "distinct (map signature (history_of sample_ledger ''A''))" using d by blast
    from tryAddress_failing_scans_authority [where validKey = sample_keys
        and address = "''A''" and L = sample_ledger and w = ?v and ?total0.0 = 7,
        OF this key(1) sample_ledger_stake(1) has(1)]
    obtain w' where run: "tryAddress (failing_scans sample_ledger 1) sample_keys ''A'' 7 ?v =
        Some (Inl (Error ''scan failed''), 9, w')"
      by (auto simp add: sample_ledger_counts)
    have "\<exists>outcome total1 w1 evs.
        tryAddress (failing_scans sample_ledger 1) sample_keys ''A'' 7 ?v =
          Some (outcome, total1, w1)
        \<and> trace w1 = trace ?v @ evs \<and> total1 = 7 + logged_counts evs
        \<and> processed evs = [''A'']"
      by (rule scans_1 [THEN conjunct2, THEN conjunct1])
    with run have "logged_counts (trace w') = 2 \<and> processed (trace w') = [''A'']" by auto
    with run show ?thesis by blast
  qed

  have c6: "\<exists>e w'. tryAddress (faulty_connection sample_ledger never only_S2) sample_keys
      ''S2'' 7 ?w = Some (Inl e, 7, w')"
  proof -
    let ?w1 = "emit (ProcessingAddress ''S2'') ?w"
    have "\<not> never ''S2''" by (simp add: never_def)
    note look = lookup_faulty [where validKey = sample_keys and address = "''S2''"
        and lookupFails = never, OF key(3) this, of sample_ledger only_S2 ?w1]
    have "\<not> fetchable sample_keys only_S2 ''S2''" by (simp add: fetchable_def only_S2_def)
    from getSignaturesForAddress_unfetchable [OF this, of sample_ledger never "''confirmed''"
        "emit AddressIsStakeAccount ?w1"]
    obtain m w2 where own:
      "getSignaturesForAddress (faulty_connection sample_ledger never only_S2) sample_keys
         ''S2'' ''confirmed'' (emit AddressIsStakeAccount ?w1) = Some (Inl (Error m), w2)"
      by blast
    from history_S2 [THEN conjunct2, THEN conjunct2, THEN conjunct2, THEN conjunct2, THEN conjunct2,
        THEN conjunct2, THEN conjunct1, rule_format,
        OF conjI [OF look conjI [OF stake(3) own]], of 7]
    show ?thesis by blast
  qed

  have c7: "\<exists>e w'. tryAddress (faulty_connection sample_ledger never only_A) sample_keys
      ''A'' 7 ?w = Some (Inl e, 7, w')"
  proof -
    let ?w1 = "emit (ProcessingAddress ''A'') ?w"
    let ?w2 = "emit (FoundStakeAccounts (length (associatedStakeAccounts_of sample_ledger ''A'')))
                 ?w1"
    have "\<not> never ''A''" by (simp add: never_def)
    note look = lookup_faulty [where validKey = sample_keys and address = "''A''"
        and lookupFails = never, OF key(1) this, of sample_ledger only_A ?w1]
    have first: "hasStakeAccount (faulty_connection sample_ledger never only_A) ''A'' ?w1 =
        Some (Inr True, ?w2)"
      using has(1) by (simp add: hasStakeAccount_ledger)
    have "\<not> fetchable sample_keys only_A ''A''" by (simp add: fetchable_def only_A_def)
    from getSignaturesForAddress_unfetchable [OF this, of sample_ledger never "''confirmed''"
        "emit AddressIsMainAuthority ?w2"]
    obtain m w3 where own:
      "getSignaturesForAddress (faulty_connection sample_ledger never only_A) sample_keys
         ''A'' ''confirmed'' (emit AddressIsMainAuthority ?w2) = Some (Inl (Error m), w3)"
      by blast
    from history_A [THEN conjunct2, THEN conjunct2, THEN conjunct2, THEN conjunct2, THEN conjunct2,
        THEN conjunct2, THEN conjunct2, THEN conjunct1, rule_format,
        OF conjI [OF look conjI [OF stake(1) conjI [OF first own]]], of 7]
    show ?thesis by blast
  qed

  have c8: "\<exists>e w'. tryAddress (faulty_connection sample_ledger never only_N) sample_keys
      ''N'' 7 ?w = Some (Inl e, 7, w')"
  proof -
    let ?w1 = "emit (ProcessingAddress ''N'') ?w"
    let ?w2 = "emit (FoundStakeAccounts (length (associatedStakeAccounts_of sample_ledger ''N'')))
                 ?w1"
    let ?w3 = "emit (FoundStakeAccounts (length (associatedStakeAccounts_of sample_ledger ''N'')))
                 ?w2"
    have "\<not> never ''N''" by (simp add: never_def)
    note look = lookup_faulty [where validKey = sample_keys and address = "''N''"
        and lookupFails = never, OF key(2) this, of sample_ledger only_N ?w1]
    have first: "hasStakeAccount (faulty_connection sample_ledger never only_N) ''N'' ?w1 =
        Some (Inr False, ?w2)"
      using has(2) by (simp add: hasStakeAccount_ledger)
    have second: "hasStakeAccount (faulty_connection sample_ledger never only_N) ''N'' ?w2 =
        Some (Inr False, ?w3)"
      using has(2) by (simp add: hasStakeAccount_ledger)
    have "\<not> fetchable sample_keys only_N ''N''" by (simp add: fetchable_def only_N_def)
    from getSignaturesForAddress_unfetchable [OF this, of sample_ledger never "''confirmed''"
        "emit AddressIsNormalAccount ?w3"]
    obtain m w4 where own:
      "getSignaturesForAddress (faulty_connection sample_ledger never only_N) sample_keys
         ''N'' ''confirmed'' (emit AddressIsNormalAccount ?w3) = Some (Inl (Error m), w4)"
      by blast
    from history_N [THEN conjunct2, THEN conjunct2, THEN conjunct2, THEN conjunct2, THEN conjunct2,
        THEN conjunct2, THEN conjunct2, THEN conjunct2, rule_format,
        OF conjI [OF look conjI [OF stake(2) conjI [OF first conjI [OF second own]]]], of 7]
    show ?thesis by blast
  qed

  from c1 c2 c3 c4 c5 c6 c7 c8 show ?thesis by (intro conjI)
qed

text \<open>
  C3 as stated fails when the processing of an address fails after some of its counts were
  added: the signature listing of the stake account \<open>S2\<close> of the authority \<open>A\<close> fails, the
  processing of \<open>A\<close> ends with a thrown value, and yet \<open>A\<close> has added 5 (its own 2
  signatures and the 3 of \<open>S1\<close>) to the total.
\<close>

theorem partial_count_counterexample:
  "map_option (isl \<circ> fst)
     (tryAddress (faulty_connection sample_ledger never only_S2) sample_keys ''A'' 0
        \<lparr>ext = (), trace = []\<rparr>) = Some True
   \<and> map_option fst
     (getTotalTransactionCount (faulty_connection sample_ledger never only_S2) sample_keys [''A'']
        \<lparr>ext = (), trace = []\<rparr>) = Some 5"
proof -
  have "\<not> completes sample_ledger sample_keys never only_S2 ''A''"
    by (simp add: completes_def fetchable_def sample_keys_def only_S2_def never_def
          sample_ledger_stake sample_ledger_stake_accounts hasAssociatedStakeAccounts_def)
  from tryAddress_ledger_fails [OF sample_ledger_distinct this, of 0 "\<lparr>ext = (), trace = []\<rparr>"]
  have "map_option (isl \<circ> fst)
     (tryAddress (faulty_connection sample_ledger never only_S2) sample_keys ''A'' 0
        \<lparr>ext = (), trace = []\<rparr>) = Some True"
    by auto
  moreover
  from getTotalTransactionCount_loop_ledger [OF sample_ledger_distinct, of never only_S2
         sample_keys "[''A'']" 0 "\<lparr>ext = (), trace = []\<rparr>"]
  have "map_option fst
     (getTotalTransactionCount (faulty_connection sample_ledger never only_S2) sample_keys [''A'']
        \<lparr>ext = (), trace = []\<rparr>) = Some 5"
    by (auto simp add: getTotalTransactionCount_def sample_faulty_counts)
  ultimately show ?thesis by simp
qed

end
